theory Spec2Isabelle
  imports Main "HOL-Library.Sublist" "HOL-Library.Char_ord" "HOL-Library.List_Lexorder"
begin

text \<open>
  A model of \<open>gamedeals.py\<close>: the script loads the ids of the posts it has already
  mailed, fetches the newest posts of one subreddit, keeps those that are new and pass
  \<open>filter_post\<close>, mails them as one HTML document and saves the ids.  The pure parts
  (\<open>filter_post\<close>, the loop, the rendering) are functions; what the script reads and
  does outside itself is a \<open>world\<close> it is given and an \<open>outcome\<close> it returns, and every
  exception is a value.
\<close>

section \<open>Strings as the program uses them\<close>

text \<open>
  A Python \<open>str\<close> is modelled as a \<open>string\<close> in which every \<open>char\<close> is one
  code point below 256 (Latin-1).  \<open>str.lower()\<close> maps the upper-case letters of that
  range, \<open>A\<close>..\<open>Z\<close> and U+00C0..U+00DE without the multiplication sign U+00D7, to the
  code point 32 above, which is the same code point with bit 5 set; every other code
  point of the range is left as it is.
\<close>

definition is_upper :: "char \<Rightarrow> bool" where
  "is_upper c = (let n = (of_char c :: nat) in
     (65 \<le> n \<and> n \<le> 90) \<or> (192 \<le> n \<and> n \<le> 222 \<and> n \<noteq> 215))"

fun set_bit5 :: "char \<Rightarrow> char" where
  "set_bit5 (Char b0 b1 b2 b3 b4 b5 b6 b7) = Char b0 b1 b2 b3 b4 True b6 b7"

definition lower_char :: "char \<Rightarrow> char" where
  "lower_char c = (if is_upper c then set_bit5 c else c)"

definition lower :: "string \<Rightarrow> string" where
  "lower s = map lower_char s"

text \<open>Python's \<open>sub in title\<close> on strings: \<open>sub\<close> occurs as a contiguous slice.\<close>

fun str_in :: "string \<Rightarrow> string \<Rightarrow> bool" where
  "str_in sub [] = (sub = [])"
| "str_in sub (c # cs) = (prefix sub (c # cs) \<or> str_in sub cs)"

text \<open>\<open>any(sub in title for sub in subs)\<close>\<close>

definition any_in :: "string list \<Rightarrow> string \<Rightarrow> bool" where
  "any_in subs title = (\<exists>sub \<in> set subs. str_in sub title)"

text \<open>
  What "the title contains the term, case-insensitively" means: both sides are
  lower-cased before the slice test.  The terms of the three lists below are in lower
  case already, so for them this is the test \<open>filter_post\<close> makes.
\<close>

definition contains_ci :: "string \<Rightarrow> string \<Rightarrow> bool" where
  "contains_ci s term = str_in (lower term) (lower s)"

section \<open>Posts and the filter\<close>

text \<open>
  The dictionary that \<open>fetch_posts\<close> builds for one post has exactly the five keys
  below; their values are strings, as the listing of the feed gives them.
\<close>

record post =
  post_id :: string
  title :: string
  url :: string
  domain :: string
  permalink :: string

text \<open>The three lists that \<open>filter_post\<close> binds to \<open>subs\<close>, in the order it uses them.\<close>

definition subs_allow :: "string list" where
  "subs_allow = [''steam'', ''gog'', ''epic'']"

definition subs_exclude :: "string list" where
  "subs_exclude = [''limited time'', ''free weekend'', ''free to play'', ''trial'', ''buy'']"

definition subs_qualify :: "string list" where
  "subs_qualify = [''free'', ''100'']"

definition filter_post :: "post \<Rightarrow> bool" where
  "filter_post p =
     (if lower (domain p) = ''self.gamedeals'' then False
      else let t = lower (title p) in
        if \<not> any_in subs_allow t then False
        else if any_in subs_exclude t then False
        else if \<not> any_in subs_qualify t then False
        else True)"

section \<open>Exceptions, the state file, the feed and the mail relay\<close>

text \<open>
  The exceptions the program can meet.  \<open>HTTPError\<close> carries the status that
  \<open>raise_for_status\<close> refused.
\<close>

datatype exn =
    HTTPError nat
  | RequestException
  | JSONDecodeError
  | KeyError string
  | TypeError
  | AttributeError
  | SMTPException
  | OSError

text \<open>
  What \<open>SENT_FILE\<close> holds when it exists: either content on which
  \<open>load_sent_posts\<close> raises (text that is not JSON, a JSON value without \<open>get\<close>,
  a file that cannot be opened), or a JSON object, given by the items of the dictionary
  \<open>json.load\<close> makes of it, whose values are lists of id strings.  \<open>json.dump\<close> and
  \<open>json.load\<close> are taken as inverse to each other on such a dictionary.
\<close>

datatype file_content =
    Unloadable exn
  | Object "(string \<times> string list) list"

text \<open>
  The answer to the one GET request.  \<open>NotJson\<close> is a body that \<open>response.json()\<close>
  rejects, \<open>Misshapen e\<close> a JSON body on which \<open>data["data"]["children"]\<close> or
  \<open>child["data"]\<close> raises \<open>e\<close>, and \<open>Children cs\<close> a listing, each child given by
  the items of its \<open>data\<close> dictionary, with strings as values.  \<open>NoResponse e\<close> is a
  request on which \<open>requests.get\<close> itself raises \<open>e\<close>.
\<close>

datatype body =
    NotJson
  | Misshapen exn
  | Children "(string \<times> string) list list"

datatype response =
    NoResponse exn
  | Response nat body

text \<open>
  Everything outside the program that one run touches: the state file (\<open>None\<close> when
  \<open>os.path.exists\<close> is false), whether a save of it goes through (\<open>writable\<close>), what
  a GET of a URL answers, what the mail relay does with a message (\<open>None\<close>: accepted),
  and the order in which \<open>list(sent_ids)\<close> enumerates a set in this run.  When a save
  does not go through, \<open>openable\<close> tells where it stops: at \<open>open(SENT_FILE, "w")\<close>
  itself, or after it, when the file has been opened and so truncated.
\<close>

record world =
  sent_file :: "file_content option"
  writable :: bool
  openable :: bool
  http_get :: "string \<Rightarrow> response"
  relay :: "string \<Rightarrow> exn option"
  listing :: "string set \<Rightarrow> string list"

section \<open>Configuration\<close>

definition SUBREDDIT :: string where
  "SUBREDDIT = ''GameDeals''"

definition SORT_BY :: string where
  "SORT_BY = ''new''"

text \<open>\<open>LIMIT = 50\<close>, as the f-string of \<open>fetch_posts\<close> prints it.\<close>

definition LIMIT :: string where
  "LIMIT = ''50''"

section \<open>The template and its rendering\<close>

text \<open>
  \<open>pystache.render\<close> on the tags \<open>TEMPLATE\<close> uses: literal text, the escaped
  variable \<open>{{name}}\<close> and one list section \<open>{{#name}} ... {{/name}}\<close>.  The template
  is held as pystache parses it; the two lines that hold only a section tag are dropped
  whole, as Mustache treats stand-alone tags.  An escaped variable is passed through
  \<open>html.escape(s, quote=True)\<close>.  Inside a section a name is looked up in the item;
  the names \<open>TEMPLATE\<close> uses there are keys of every post, and a name that is found
  nowhere renders as the empty string.
\<close>

datatype tag = Text string | Var string

datatype node = Static string | Section string "tag list"

definition escape_char :: "char \<Rightarrow> string" where
  \<open>escape_char c =
     (if c = CHR ''&'' then ''&amp;''
      else if c = CHR ''<'' then ''&lt;''
      else if c = CHR ''>'' then ''&gt;''
      else if c = CHR 0x22 then ''&quot;''
      else if c = CHR 0x27 then ''&#x27;''
      else [c])\<close>

definition html_escape :: "string \<Rightarrow> string" where
  "html_escape s = concat (map escape_char s)"

fun render_tag :: "(string \<times> string) list \<Rightarrow> tag \<Rightarrow> string" where
  "render_tag item (Text s) = s"
| "render_tag item (Var k) = (case map_of item k of None \<Rightarrow> [] | Some v \<Rightarrow> html_escape v)"

fun render_node :: "(string \<times> (string \<times> string) list list) list \<Rightarrow> node \<Rightarrow> string" where
  "render_node view (Static s) = s"
| "render_node view (Section k tags) =
     (case map_of view k of
        None \<Rightarrow> []
      | Some items \<Rightarrow> concat (map (\<lambda>item. concat (map (render_tag item) tags)) items))"

definition pystache_render :: "node list \<Rightarrow> (string \<times> (string \<times> string) list list) list \<Rightarrow> string" where
  "pystache_render template view = concat (map (render_node view) template)"

definition TEMPLATE_head :: string where
  \<open>TEMPLATE_head =
     ''\<newline>'' @
     ''<!DOCTYPE html>\<newline>'' @
     ''<html lang="en">\<newline>'' @
     ''<head>\<newline>'' @
     ''    <meta charset="UTF-8">\<newline>'' @
     ''    <meta name="viewport" content="width=device-width, initial-scale=1.0">\<newline>'' @
     ''    <style>\<newline>'' @
     ''        body {\<newline>'' @
     ''            font-family: Arial, sans-serif;\<newline>'' @
     ''            background-color: #2E2E2E;\<newline>'' @
     ''            background-image: url('https://img.freepik.com/premium-vector/carbon-fiber-background_79145-383.jpg'); /* Adding the new carbon fiber background */\<newline>'' @
     ''            background-size: cover;\<newline>'' @
     ''            background-attachment: fixed;\<newline>'' @
     ''            margin: 0;\<newline>'' @
     ''            padding: 20px;\<newline>'' @
     ''        }\<newline>'' @
     ''        .card-container {\<newline>'' @
     ''            display: flex;\<newline>'' @
     ''            flex-direction: column;\<newline>'' @
     ''            align-items: flex-start; /* Align cards to the left */\<newline>'' @
     ''            gap: 20px;\<newline>'' @
     ''        }\<newline>'' @
     ''        .card {\<newline>'' @
     ''            background-color: #f8f8f8; /* Adjusted to a less white color */\<newline>'' @
     ''            border: 1px solid #ccc;\<newline>'' @
     ''            border-radius: 10px;\<newline>'' @
     ''            box-shadow: 0 2px 4px rgba(0,0,0,0.1);\<newline>'' @
     ''            padding: 20px;\<newline>'' @
     ''            width: 100%;\<newline>'' @
     ''            max-width: 500px;\<newline>'' @
     ''            box-sizing: border-box; /* Ensure padding is included in the width calculation */\<newline>'' @
     ''        }\<newline>'' @
     ''        .card-title {\<newline>'' @
     ''            font-size: 20px;\<newline>'' @
     ''            margin-bottom: 10px;\<newline>'' @
     ''        }\<newline>'' @
     ''        .card-links {\<newline>'' @
     ''            display: flex;\<newline>'' @
     ''            gap: 10px;\<newline>'' @
     ''        }\<newline>'' @
     ''        .card-link {\<newline>'' @
     ''            display: inline-block;\<newline>'' @
     ''            padding: 5px 10px;\<newline>'' @
     ''            border-radius: 20px;\<newline>'' @
     ''            background-color: #2E2E2E; /* Same color as the background */\<newline>'' @
     ''            color: #ffffff;\<newline>'' @
     ''            text-decoration: none;\<newline>'' @
     ''            font-size: 14px;\<newline>'' @
     ''        }\<newline>'' @
     ''    </style>\<newline>'' @
     ''    <title>Game List</title>\<newline>'' @
     ''</head>\<newline>'' @
     ''<body>\<newline>'' @
     ''    <div class="card-container" id="card-container">\<newline>''\<close>

definition TEMPLATE_tail :: string where
  \<open>TEMPLATE_tail =
     ''    </div>\<newline>'' @
     ''\<newline>'' @
     ''    <script>\<newline>'' @
     ''        // JavaScript to make all cards the same width\<newline>'' @
     ''        window.onload = function() {\<newline>'' @
     ''            var cards = document.querySelectorAll('.card');\<newline>'' @
     ''            var maxWidth = 0;\<newline>'' @
     ''\<newline>'' @
     ''            // Find the widest card\<newline>'' @
     ''            cards.forEach(function(card) {\<newline>'' @
     ''                maxWidth = Math.max(maxWidth, card.offsetWidth);\<newline>'' @
     ''            });\<newline>'' @
     ''\<newline>'' @
     ''            // Set all cards to the width of the widest card\<newline>'' @
     ''            cards.forEach(function(card) {\<newline>'' @
     ''                card.style.width = maxWidth + 'px';\<newline>'' @
     ''            });\<newline>'' @
     ''        }\<newline>'' @
     ''    </script>\<newline>'' @
     ''</body>\<newline>'' @
     ''</html>\<newline>''\<close>

definition TEMPLATE_card :: "tag list" where
  \<open>TEMPLATE_card =
     [Text (''        <div class="card">\<newline>'' @
            ''            <div class="card-title">''),
      Var ''title'',
      Text (''</div>\<newline>'' @
            ''            <div class="card-links">\<newline>'' @
            ''                <a href="http://www.reddit.com''),
      Var ''permalink'',
      Text (''" class="card-link">Reddit link</a>\<newline>'' @
            ''                <a href="''),
      Var ''url'',
      Text (''" class="card-link">Direct link</a>\<newline>'' @
            ''            </div>\<newline>'' @
            ''        </div>\<newline>'')]\<close>

definition TEMPLATE :: "node list" where
  "TEMPLATE = [Static TEMPLATE_head, Section ''posts'' TEMPLATE_card, Static TEMPLATE_tail]"

text \<open>The dictionary of one post, with the keys in the order \<open>fetch_posts\<close> writes them.\<close>

definition post_dict :: "post \<Rightarrow> (string \<times> string) list" where
  "post_dict p =
     [(''id'', post_id p), (''title'', title p), (''url'', url p),
      (''domain'', domain p), (''permalink'', permalink p)]"

definition render_posts_html :: "node list \<Rightarrow> post list \<Rightarrow> string" where
  "render_posts_html template posts = pystache_render template [(''posts'', map post_dict posts)]"

section \<open>The state file\<close>

definition load_sent_posts :: "world \<Rightarrow> exn + string set" where
  "load_sent_posts w =
     (case sent_file w of
        None \<Rightarrow> Inr {}
      | Some (Unloadable e) \<Rightarrow> Inl e
      | Some (Object data) \<Rightarrow>
          Inr (set (case map_of data ''sent_ids'' of None \<Rightarrow> [] | Some ids \<Rightarrow> ids)))"

text \<open>
  \<open>save_sent_posts\<close> returns the new state file, or the exception together with what
  the file holds after it.  When \<open>open(SENT_FILE, "w")\<close> raises nothing has been
  written.  When the file has been opened, and so truncated, and the writing raises
  before the text is complete, the file exists and holds a part of the text only, which
  \<open>json.load\<close> rejects.
\<close>

definition save_sent_posts ::
  "world \<Rightarrow> string set \<Rightarrow> (exn \<times> file_content option) + file_content" where
  "save_sent_posts w sent_ids =
     (if writable w then Inr (Object [(''sent_ids'', listing w sent_ids)])
      else if openable w then Inl (OSError, Some (Unloadable JSONDecodeError))
      else Inl (OSError, sent_file w))"

section \<open>Fetching\<close>

definition feed_url :: "string \<Rightarrow> string" where
  "feed_url subreddit =
     ''https://www.reddit.com/r/'' @ subreddit @ ''/'' @ SORT_BY @ ''.json?limit='' @ LIMIT"

text \<open>\<open>p[k]\<close> on the members of a JSON object.\<close>

definition getitem :: "(string \<times> string) list \<Rightarrow> string \<Rightarrow> exn + string" where
  "getitem p k = (case map_of p k of None \<Rightarrow> Inl (KeyError k) | Some v \<Rightarrow> Inr v)"

text \<open>The dictionary literal of the loop body; its values are evaluated in the order written.\<close>

definition make_post :: "(string \<times> string) list \<Rightarrow> exn + post" where
  "make_post p =
     (case getitem p ''id'' of Inl e \<Rightarrow> Inl e | Inr i \<Rightarrow>
      case getitem p ''title'' of Inl e \<Rightarrow> Inl e | Inr t \<Rightarrow>
      case getitem p ''url'' of Inl e \<Rightarrow> Inl e | Inr u \<Rightarrow>
      case getitem p ''domain'' of Inl e \<Rightarrow> Inl e | Inr d \<Rightarrow>
      case getitem p ''permalink'' of Inl e \<Rightarrow> Inl e | Inr l \<Rightarrow>
        Inr \<lparr>post_id = i, title = t, url = u, domain = d,
             permalink = ''https://www.reddit.com'' @ l\<rparr>)"

fun append_posts :: "(string \<times> string) list list \<Rightarrow> post list \<Rightarrow> exn + post list" where
  "append_posts [] posts = Inr posts"
| "append_posts (child # children) posts =
     (case make_post child of
        Inl e \<Rightarrow> Inl e
      | Inr p \<Rightarrow> append_posts children (posts @ [p]))"

definition fetch_posts :: "world \<Rightarrow> string \<Rightarrow> exn + post list" where
  "fetch_posts w subreddit =
     (case http_get w (feed_url subreddit) of
        NoResponse e \<Rightarrow> Inl e
      | Response status data \<Rightarrow>
          if 400 \<le> status \<and> status < 600 then Inl (HTTPError status)
          else (case data of
                  NotJson \<Rightarrow> Inl JSONDecodeError
                | Misshapen e \<Rightarrow> Inl e
                | Children children \<Rightarrow> append_posts children []))"

section \<open>Sending\<close>

text \<open>
  What a run does that can be seen from outside: a line it prints, a document the relay
  has accepted, a state file it has written.
\<close>

datatype message =
    Error_fetching string exn
  | Sent_email nat
  | No_new_matching_posts

datatype event = Print message | Send string | Write file_content

text \<open>
  \<open>send_email\<close> hands the document to the relay: it raises what the relay raises, and
  otherwise the relay has accepted that document.
\<close>

definition send_email :: "world \<Rightarrow> string \<Rightarrow> exn + event" where
  "send_email w html = (case relay w html of Some e \<Rightarrow> Inl e | None \<Rightarrow> Inr (Send html))"

section \<open>The run\<close>

text \<open>
  What a run leaves behind: the exception that left \<open>main\<close>, if any; what it printed,
  sent and wrote, in order; and the state file afterwards.
\<close>

record outcome =
  raised :: "exn option"
  trace :: "event list"
  disk :: "file_content option"

text \<open>The \<open>for post in posts\<close> loop of \<open>main\<close>, on \<open>new_matching_posts\<close> and \<open>sent_ids\<close>.\<close>

fun main_loop :: "post list \<Rightarrow> post list \<times> string set \<Rightarrow> post list \<times> string set" where
  "main_loop [] acc = acc"
| "main_loop (p # posts) (new_matching_posts, sent_ids) =
     (if post_id p \<notin> sent_ids \<and> filter_post p
      then main_loop posts (new_matching_posts @ [p], insert (post_id p) sent_ids)
      else main_loop posts (new_matching_posts, sent_ids))"

text \<open>
  The \<open>try\<close> statement of \<open>main\<close>: what it printed, and the two variables after it.
  An exception of \<open>fetch_posts\<close> is caught and printed; the loop has not run then.
  On posts whose fields are strings the loop itself raises nothing.
\<close>

definition try_fetch :: "world \<Rightarrow> string set \<Rightarrow> event list \<times> post list \<times> string set" where
  "try_fetch w sent_ids =
     (case fetch_posts w SUBREDDIT of
        Inl e \<Rightarrow> ([Print (Error_fetching SUBREDDIT e)], [], sent_ids)
      | Inr posts \<Rightarrow> ([], main_loop posts ([], sent_ids)))"

definition main :: "world \<Rightarrow> outcome" where
  "main w =
     (case load_sent_posts w of
        Inl e \<Rightarrow> \<lparr>raised = Some e, trace = [], disk = sent_file w\<rparr>
      | Inr loaded \<Rightarrow>
          (case try_fetch w loaded of (printed, new_matching_posts, sent_ids) \<Rightarrow>
             if new_matching_posts \<noteq> [] then
               (let html = render_posts_html TEMPLATE new_matching_posts in
                case send_email w html of
                  Inl e \<Rightarrow> \<lparr>raised = Some e, trace = printed, disk = sent_file w\<rparr>
                | Inr delivered \<Rightarrow>
                    (case save_sent_posts w sent_ids of
                       Inl (e, left) \<Rightarrow>
                         \<lparr>raised = Some e, trace = printed @ [delivered], disk = left\<rparr>
                     | Inr written \<Rightarrow>
                         \<lparr>raised = None,
                          trace = printed @ [delivered, Write written,
                                            Print (Sent_email (length new_matching_posts))],
                          disk = Some written\<rparr>))
             else \<lparr>raised = None, trace = printed @ [Print No_new_matching_posts],
                   disk = sent_file w\<rparr>))"

section \<open>The filter and the loop on values of any kind\<close>

text \<open>
  The values of a listing are JSON values, and \<open>filter_post\<close> calls \<open>.lower()\<close> on two
  of them without knowing that they are strings.  To see what is evaluated, and when,
  the filter and the loop are given here once more, on posts whose \<open>title\<close> and
  \<open>domain\<close> are either a string or a value that is not one (null, a number, a boolean,
  an array, an object), on which \<open>.lower()\<close> raises \<open>AttributeError\<close>.  A \<open>raw_post\<close>
  holds the three keys that the loop and the filter read; the id is a string.
\<close>

datatype json_value = Str string | Not_str

record raw_post =
  raw_id :: string
  raw_title :: json_value
  raw_domain :: json_value

definition value_lower :: "json_value \<Rightarrow> exn + string" where
  "value_lower v = (case v of Str s \<Rightarrow> Inr (lower s) | Not_str \<Rightarrow> Inl AttributeError)"

text \<open>
  The four conditions of \<open>filter_post\<close>.  \<open>filter_post_steps\<close> gives, next to what
  \<open>filter_post\<close> returns or raises, the conditions it has begun to evaluate by then, in
  the order in which it has.
\<close>

datatype check = Self_post | Allow_list | Exclusion_list | Qualifying_list

definition filter_post_steps :: "raw_post \<Rightarrow> check list \<times> (exn + bool)" where
  "filter_post_steps post =
     (case value_lower (raw_domain post) of
        Inl e \<Rightarrow> ([Self_post], Inl e)
      | Inr d \<Rightarrow>
          if d = ''self.gamedeals'' then ([Self_post], Inr False)
          else (case value_lower (raw_title post) of
                  Inl e \<Rightarrow> ([Self_post], Inl e)
                | Inr t \<Rightarrow>
                    if \<not> any_in subs_allow t then ([Self_post, Allow_list], Inr False)
                    else if any_in subs_exclude t
                      then ([Self_post, Allow_list, Exclusion_list], Inr False)
                    else if \<not> any_in subs_qualify t
                      then ([Self_post, Allow_list, Exclusion_list, Qualifying_list], Inr False)
                    else ([Self_post, Allow_list, Exclusion_list, Qualifying_list], Inr True)))"

definition filter_post_raw :: "raw_post \<Rightarrow> exn + bool" where
  "filter_post_raw post = snd (filter_post_steps post)"

text \<open>
  The loop of \<open>main\<close> on such posts.  \<open>post["id"] not in sent_ids and filter_post(post)\<close>
  evaluates its right side only when the left side is true.  An exception of
  \<open>filter_post\<close> ends the loop, and the \<open>except\<close> clause of \<open>main\<close> finds the two
  variables as the loop has left them.
\<close>

fun main_loop_raw ::
  "raw_post list \<Rightarrow> raw_post list \<times> string set \<Rightarrow> exn option \<times> raw_post list \<times> string set" where
  "main_loop_raw [] (new_matching_posts, sent_ids) = (None, new_matching_posts, sent_ids)"
| "main_loop_raw (p # posts) (new_matching_posts, sent_ids) =
     (if raw_id p \<in> sent_ids then main_loop_raw posts (new_matching_posts, sent_ids)
      else (case filter_post_raw p of
              Inl e \<Rightarrow> (Some e, new_matching_posts, sent_ids)
            | Inr matches \<Rightarrow>
                if matches
                then main_loop_raw posts (new_matching_posts @ [p], insert (raw_id p) sent_ids)
                else main_loop_raw posts (new_matching_posts, sent_ids)))"

text \<open>A post whose values are strings, as a \<open>raw_post\<close>.\<close>

definition raw_of :: "post \<Rightarrow> raw_post" where
  "raw_of p = \<lparr>raw_id = post_id p, raw_title = Str (title p), raw_domain = Str (domain p)\<rparr>"

section \<open>One card of the document\<close>

text \<open>
  The text that the section of \<open>TEMPLATE\<close> contributes for one item, given what stands
  in the places of \<open>{{title}}\<close>, of the whole \<open>href\<close> of the "Reddit link" and of the
  \<open>href\<close> of the "Direct link"; and the card of a post.
\<close>

definition card_html :: "string \<Rightarrow> string \<Rightarrow> string \<Rightarrow> string" where
  \<open>card_html title_text reddit_href direct_href =
     ''        <div class="card">\<newline>'' @
     ''            <div class="card-title">'' @ title_text @ ''</div>\<newline>'' @
     ''            <div class="card-links">\<newline>'' @
     ''                <a href="'' @ reddit_href @ ''" class="card-link">Reddit link</a>\<newline>'' @
     ''                <a href="'' @ direct_href @ ''" class="card-link">Direct link</a>\<newline>'' @
     ''            </div>\<newline>'' @
     ''        </div>\<newline>''\<close>

definition post_card :: "post \<Rightarrow> string" where
  "post_card p = card_html (html_escape (title p))
     (''http://www.reddit.com'' @ html_escape (permalink p)) (html_escape (url p))"

section \<open>A sample feed\<close>

text \<open>
  A listing of three posts, used to run the definitions: \<open>A\<close> and \<open>B\<close> pass
  \<open>filter_post\<close>, \<open>C\<close> has no qualifying term.  \<open>sample_world\<close> answers the feed
  URL with that listing, gives every mail the same answer of the relay, enumerates a set
  in sorted order, and when it cannot save it cannot open the file either.
\<close>

definition sample_children :: "(string \<times> string) list list" where
  "sample_children =
     [[(''id'', ''A''), (''title'', ''[Steam] Half-Life (Free)''),
       (''url'', ''https://store.example/half-life''), (''domain'', ''store.example''),
       (''permalink'', ''/r/GameDeals/comments/A/half_life/'')],
      [(''id'', ''B''), (''title'', ''[GOG] Tom & Jerry (100% off)''),
       (''url'', ''https://shop.example/item?id=7&ref=gd''), (''domain'', ''shop.example''),
       (''permalink'', ''/r/GameDeals/comments/B/tom_jerry/'')],
      [(''id'', ''C''), (''title'', ''[Epic] Portal (75% off)''),
       (''url'', ''https://games.example/portal''), (''domain'', ''games.example''),
       (''permalink'', ''/r/GameDeals/comments/C/portal/'')]]"

definition sample_A :: post where
  "sample_A = \<lparr>post_id = ''A'', title = ''[Steam] Half-Life (Free)'',
     url = ''https://store.example/half-life'', domain = ''store.example'',
     permalink = ''https://www.reddit.com/r/GameDeals/comments/A/half_life/''\<rparr>"

definition sample_B :: post where
  "sample_B = \<lparr>post_id = ''B'', title = ''[GOG] Tom & Jerry (100% off)'',
     url = ''https://shop.example/item?id=7&ref=gd'', domain = ''shop.example'',
     permalink = ''https://www.reddit.com/r/GameDeals/comments/B/tom_jerry/''\<rparr>"

definition sample_C :: post where
  "sample_C = \<lparr>post_id = ''C'', title = ''[Epic] Portal (75% off)'',
     url = ''https://games.example/portal'', domain = ''games.example'',
     permalink = ''https://www.reddit.com/r/GameDeals/comments/C/portal/''\<rparr>"

definition sample_get :: "string \<Rightarrow> response" where
  "sample_get u =
     (if u = ''https://www.reddit.com/r/GameDeals/new.json?limit=50''
      then Response 200 (Children sample_children)
      else NoResponse RequestException)"

definition sample_world :: "file_content option \<Rightarrow> bool \<Rightarrow> exn option \<Rightarrow> world" where
  "sample_world f wr r =
     \<lparr>sent_file = f, writable = wr, openable = False, http_get = sample_get,
      relay = (\<lambda>html. r), listing = sorted_list_of_set\<rparr>"

text \<open>A feed that refuses every request, and an enumeration that repeats an element.\<close>

definition sample_refusal :: "string \<Rightarrow> response" where
  "sample_refusal u = Response 503 NotJson"

definition sample_repeats :: "string set \<Rightarrow> string list" where
  "sample_repeats S = [''B'', ''A'', ''B'']"

section \<open>Facts about the string operations\<close>

lemma lower_char_adds_32:
  "is_upper c \<Longrightarrow> of_char (lower_char c) = (of_char c :: nat) + 32"
  by (cases c) (simp add: lower_char_def is_upper_def Let_def of_bool_def split: if_splits)

lemma not_upper_bit5: "\<not> is_upper (Char b0 b1 b2 b3 b4 True b6 b7)"
  by (simp add: is_upper_def Let_def of_bool_def)

lemma lower_char_idem: "lower_char (lower_char c) = lower_char c"
  by (cases c) (simp add: lower_char_def not_upper_bit5)

lemma lower_idem: "lower (lower s) = lower s"
  by (simp add: lower_def lower_char_idem)

lemma length_lower: "length (lower s) = length s"
  by (simp add: lower_def)

lemma str_in_iff: "str_in sub s \<longleftrightarrow> (\<exists>pre suf. s = pre @ sub @ suf)"
proof (induction s)
  case Nil
  then show ?case by auto
next
  case (Cons c cs)
  show ?case
  proof
    assume "str_in sub (c # cs)"
    then consider "prefix sub (c # cs)" | "str_in sub cs" by auto
    then show "\<exists>pre suf. c # cs = pre @ sub @ suf"
    proof cases
      case 1
      then obtain suf where "c # cs = sub @ suf" by (auto simp: prefix_def)
      then have "c # cs = [] @ sub @ suf" by simp
      then show ?thesis by blast
    next
      case 2
      with Cons.IH obtain pre suf where "cs = pre @ sub @ suf" by blast
      then have "c # cs = (c # pre) @ sub @ suf" by simp
      then show ?thesis by blast
    qed
  next
    assume "\<exists>pre suf. c # cs = pre @ sub @ suf"
    then obtain pre suf where eq: "c # cs = pre @ sub @ suf" by blast
    show "str_in sub (c # cs)"
    proof (cases pre)
      case Nil
      with eq have "prefix sub (c # cs)" by (simp add: prefix_def)
      then show ?thesis by simp
    next
      case (Cons d pre')
      with eq have "cs = pre' @ sub @ suf" by simp
      with Cons.IH have "str_in sub cs" by blast
      then show ?thesis by simp
    qed
  qed
qed

lemma lower_subs_allow: "a \<in> set subs_allow \<Longrightarrow> lower a = a"
  by (auto simp: subs_allow_def lower_def lower_char_def is_upper_def)

lemma lower_subs_exclude: "a \<in> set subs_exclude \<Longrightarrow> lower a = a"
  by (auto simp: subs_exclude_def lower_def lower_char_def is_upper_def)

lemma lower_subs_qualify: "a \<in> set subs_qualify \<Longrightarrow> lower a = a"
  by (auto simp: subs_qualify_def lower_def lower_char_def is_upper_def)

lemma any_in_allow_ci:
  "any_in subs_allow (lower s) \<longleftrightarrow> (\<exists>a \<in> set subs_allow. contains_ci s a)"
  by (auto simp: any_in_def contains_ci_def lower_subs_allow)

lemma any_in_exclude_ci:
  "any_in subs_exclude (lower s) \<longleftrightarrow> (\<exists>a \<in> set subs_exclude. contains_ci s a)"
  by (auto simp: any_in_def contains_ci_def lower_subs_exclude)

lemma any_in_qualify_ci:
  "any_in subs_qualify (lower s) \<longleftrightarrow> (\<exists>a \<in> set subs_qualify. contains_ci s a)"
  by (auto simp: any_in_def contains_ci_def lower_subs_qualify)

section \<open>Facts about the loop of \<open>main\<close>\<close>

lemma main_loop_acc:
  "main_loop posts (new, S) =
     (new @ fst (main_loop posts ([], S)), snd (main_loop posts ([], S)))"
proof (induction posts arbitrary: new S)
  case Nil
  show ?case by simp
next
  case (Cons p posts)
  show ?case
  proof (cases "post_id p \<notin> S \<and> filter_post p")
    case True
    have "main_loop (p # posts) (new, S) = main_loop posts (new @ [p], insert (post_id p) S)"
      using True by simp
    also have "\<dots> = ((new @ [p]) @ fst (main_loop posts ([], insert (post_id p) S)),
                      snd (main_loop posts ([], insert (post_id p) S)))"
      by (rule Cons.IH)
    finally have l: "main_loop (p # posts) (new, S) =
        (new @ p # fst (main_loop posts ([], insert (post_id p) S)),
         snd (main_loop posts ([], insert (post_id p) S)))" by simp
    have "main_loop (p # posts) ([], S) = main_loop posts ([p], insert (post_id p) S)"
      using True by simp
    also have "\<dots> = ([p] @ fst (main_loop posts ([], insert (post_id p) S)),
                      snd (main_loop posts ([], insert (post_id p) S)))"
      by (rule Cons.IH)
    finally show ?thesis using l by simp
  next
    case False
    then show ?thesis using Cons.IH [of new S] by auto
  qed
qed

lemma main_loop_Cons:
  "main_loop (p # posts) ([], S) =
     (if post_id p \<notin> S \<and> filter_post p
      then (p # fst (main_loop posts ([], insert (post_id p) S)),
            snd (main_loop posts ([], insert (post_id p) S)))
      else main_loop posts ([], S))"
  using main_loop_acc [of posts "[p]" "insert (post_id p) S"] by simp

lemma main_loop_sent:
  "snd (main_loop posts ([], S)) = S \<union> post_id ` set (fst (main_loop posts ([], S)))"
proof (induction posts arbitrary: S)
  case Nil
  show ?case by simp
next
  case (Cons p posts)
  show ?case unfolding main_loop_Cons using Cons.IH by auto
qed

lemma main_loop_subseq: "subseq (fst (main_loop posts ([], S))) posts"
proof (induction posts arbitrary: S)
  case Nil
  show ?case by simp
next
  case (Cons p posts)
  show ?case unfolding main_loop_Cons using Cons.IH by auto
qed

lemma main_loop_sound:
  "q \<in> set (fst (main_loop posts ([], S))) \<Longrightarrow> filter_post q \<and> post_id q \<notin> S \<and> q \<in> set posts"
proof (induction posts arbitrary: S)
  case Nil
  then show ?case by simp
next
  case (Cons p posts)
  then show ?case unfolding main_loop_Cons by (auto split: if_splits)
qed

lemma main_loop_distinct: "distinct (map post_id (fst (main_loop posts ([], S))))"
proof (induction posts arbitrary: S)
  case Nil
  show ?case by simp
next
  case (Cons p posts)
  show ?case
  proof (cases "post_id p \<notin> S \<and> filter_post p")
    case True
    let ?ms = "fst (main_loop posts ([], insert (post_id p) S))"
    have "post_id p \<notin> post_id ` set ?ms"
    proof
      assume "post_id p \<in> post_id ` set ?ms"
      then obtain q where q: "q \<in> set ?ms" and eq: "post_id p = post_id q" by (rule imageE)
      from main_loop_sound [OF q] have "post_id q \<notin> insert (post_id p) S" by simp
      with eq show False by simp
    qed
    moreover have "distinct (map post_id ?ms)" by (rule Cons.IH)
    ultimately show ?thesis unfolding main_loop_Cons using True by simp
  next
    case False
    then have "main_loop (p # posts) ([], S) = main_loop posts ([], S)" by auto
    then show ?thesis using Cons.IH by simp
  qed
qed

lemma main_loop_grows: "S \<subseteq> snd (main_loop posts ([], S))"
  using main_loop_sent [of posts S] by blast

lemma main_loop_complete:
  "q \<in> set posts \<Longrightarrow> filter_post q \<Longrightarrow> post_id q \<in> snd (main_loop posts ([], S))"
proof (induction posts arbitrary: S)
  case Nil
  then show ?case by simp
next
  case (Cons p posts)
  show ?case
  proof (cases "post_id p \<notin> S \<and> filter_post p")
    case True
    have sub: "insert (post_id p) S \<subseteq> snd (main_loop posts ([], insert (post_id p) S))"
      by (rule main_loop_grows)
    show ?thesis
    proof (cases "q = p")
      case True
      with sub \<open>post_id p \<notin> S \<and> filter_post p\<close> show ?thesis
        unfolding main_loop_Cons by auto
    next
      case False
      with Cons.prems have "q \<in> set posts" by simp
      from Cons.IH [OF this Cons.prems(2)] True show ?thesis
        unfolding main_loop_Cons by simp
    qed
  next
    case False
    note skip = this
    show ?thesis
    proof (cases "q = p")
      case True
      with skip Cons.prems(2) have "post_id q \<in> S" by simp
      with main_loop_grows [of S "p # posts"] show ?thesis by blast
    next
      case False
      with Cons.prems have "q \<in> set posts" by simp
      from Cons.IH [OF this Cons.prems(2)] skip show ?thesis
        unfolding main_loop_Cons by simp
    qed
  qed
qed

lemma main_loop_nothing_new:
  "(\<And>q. q \<in> set posts \<Longrightarrow> filter_post q \<Longrightarrow> post_id q \<in> S) \<Longrightarrow> main_loop posts ([], S) = ([], S)"
proof (induction posts)
  case Nil
  show ?case by simp
next
  case (Cons p posts)
  then show ?case by auto
qed

lemma main_loop_filter:
  "distinct (map post_id posts) \<Longrightarrow>
   fst (main_loop posts ([], S)) = filter (\<lambda>p. post_id p \<notin> S \<and> filter_post p) posts"
proof (induction posts arbitrary: S)
  case Nil
  show ?case by simp
next
  case (Cons p posts)
  from Cons.prems have d: "distinct (map post_id posts)" and n: "post_id p \<notin> post_id ` set posts"
    by simp_all
  have other: "post_id q \<noteq> post_id p" if "q \<in> set posts" for q
  proof
    assume "post_id q = post_id p"
    with that have "post_id p \<in> post_id ` set posts" by (metis imageI)
    with n show False by simp
  qed
  have same: "filter (\<lambda>q. post_id q \<notin> insert (post_id p) S \<and> filter_post q) posts
        = filter (\<lambda>q. post_id q \<notin> S \<and> filter_post q) posts"
    by (rule filter_cong) (simp_all add: other)
  show ?case
  proof (cases "post_id p \<notin> S \<and> filter_post p")
    case True
    then show ?thesis unfolding main_loop_Cons using Cons.IH [OF d, of "insert (post_id p) S"] same
      by simp
  next
    case False
    then show ?thesis unfolding main_loop_Cons using Cons.IH [OF d, of S] by auto
  qed
qed

section \<open>Facts about the filter and the loop on values of any kind\<close>

lemma filter_post_steps_raw_of:
  "filter_post_steps (raw_of p)
     = (if lower (domain p) = ''self.gamedeals'' then [Self_post]
        else if \<not> any_in subs_allow (lower (title p)) then [Self_post, Allow_list]
        else if any_in subs_exclude (lower (title p)) then [Self_post, Allow_list, Exclusion_list]
        else [Self_post, Allow_list, Exclusion_list, Qualifying_list],
        Inr (filter_post p))"
  by (simp add: filter_post_steps_def raw_of_def value_lower_def filter_post_def Let_def)

lemma filter_post_raw_of: "filter_post_raw (raw_of p) = Inr (filter_post p)"
  by (simp add: filter_post_raw_def filter_post_steps_raw_of)

lemma main_loop_raw_seen:
  "raw_id r \<in> seen \<Longrightarrow> main_loop_raw (r # rest) (new, seen) = main_loop_raw rest (new, seen)"
  by simp

lemma main_loop_raw_all_seen:
  "(\<And>r. r \<in> set skipped \<Longrightarrow> raw_id r \<in> seen) \<Longrightarrow>
   main_loop_raw (skipped @ rest) (new, seen) = main_loop_raw rest (new, seen)"
proof (induction skipped)
  case Nil
  show ?case by simp
next
  case (Cons r skipped)
  have "raw_id r \<in> seen" by (rule Cons.prems) simp
  moreover have "main_loop_raw (skipped @ rest) (new, seen) = main_loop_raw rest (new, seen)"
    by (rule Cons.IH) (simp add: Cons.prems)
  ultimately show ?case by simp
qed

lemma main_loop_raw_raises:
  "raw_id r \<notin> seen \<Longrightarrow> filter_post_raw r = Inl e \<Longrightarrow>
   main_loop_raw (r # rest) (new, seen) = (Some e, new, seen)"
  by simp

lemma main_loop_raw_of:
  "main_loop_raw (map raw_of posts) (map raw_of new, seen)
     = (None, map raw_of (fst (main_loop posts (new, seen))), snd (main_loop posts (new, seen)))"
proof (induction posts arbitrary: new seen)
  case Nil
  show ?case by simp
next
  case (Cons p posts)
  have id: "raw_id (raw_of p) = post_id p" by (simp add: raw_of_def)
  show ?case
  proof (cases "post_id p \<in> seen")
    case True
    then show ?thesis using Cons.IH [of new seen] by (simp add: id)
  next
    case False
    show ?thesis
    proof (cases "filter_post p")
      case True
      with False Cons.IH [of "new @ [p]" "insert (post_id p) seen"] show ?thesis
        by (simp add: id filter_post_raw_of)
    next
      case no: False
      with False Cons.IH [of new seen] show ?thesis
        by (simp add: id filter_post_raw_of)
    qed
  qed
qed

section \<open>Facts about a run\<close>

lemma load_sent_posts_cong:
  "sent_file w' = sent_file w \<Longrightarrow> load_sent_posts w' = load_sent_posts w"
  by (simp add: load_sent_posts_def)

lemma fetch_posts_cong:
  "http_get w' = http_get w \<Longrightarrow> fetch_posts w' s = fetch_posts w s"
  by (simp add: fetch_posts_def)

lemma try_fetch_cong:
  "http_get w' = http_get w \<Longrightarrow> try_fetch w' S = try_fetch w S"
  using fetch_posts_cong [of w' w SUBREDDIT] by (simp add: try_fetch_def)

lemma load_sent_posts_finite:
  assumes "load_sent_posts w = Inr S"
  shows "finite S"
proof (cases "sent_file w")
  case None
  with assms show ?thesis by (simp add: load_sent_posts_def)
next
  case (Some content)
  show ?thesis
  proof (cases content)
    case (Unloadable e)
    with Some assms show ?thesis by (simp add: load_sent_posts_def)
  next
    case (Object data)
    with Some assms
    have "S = set (case map_of data ''sent_ids'' of None \<Rightarrow> [] | Some ids \<Rightarrow> ids)"
      by (simp add: load_sent_posts_def)
    then show ?thesis by (cases "map_of data ''sent_ids''") simp_all
  qed
qed

lemma try_fetch_cases:
  assumes "try_fetch w S = (printed, new, S')"
  obtains (failed) e where "fetch_posts w SUBREDDIT = Inl e"
      and "printed = [Print (Error_fetching SUBREDDIT e)]" and "new = []" and "S' = S"
    | (fetched) posts where "fetch_posts w SUBREDDIT = Inr posts"
      and "printed = []" and "main_loop posts ([], S) = (new, S')"
  using assms by (auto simp: try_fetch_def split: sum.splits)

lemma try_fetch_new_not_loaded:
  assumes "try_fetch w S = (printed, new, S')" and "p \<in> set new"
  shows "post_id p \<notin> S \<and> filter_post p"
  using assms(1)
proof (cases rule: try_fetch_cases)
  case (failed e)
  with assms(2) show ?thesis by simp
next
  case (fetched posts)
  then have "new = fst (main_loop posts ([], S))" by simp
  with assms(2) main_loop_sound [of p posts S] show ?thesis by simp
qed

lemma try_fetch_no_write:
  assumes "try_fetch w S = (printed, new, S')"
  shows "Write c \<notin> set printed \<and> Send h \<notin> set printed"
  using assms by (cases rule: try_fetch_cases) auto

lemma main_ok_cases:
  assumes "raised (main w) = None"
  obtains (nothing) loaded printed sent_ids where "load_sent_posts w = Inr loaded"
      and "try_fetch w loaded = (printed, [], sent_ids)" and "disk (main w) = sent_file w"
    | (sent) loaded printed new sent_ids where "load_sent_posts w = Inr loaded"
      and "try_fetch w loaded = (printed, new, sent_ids)" and "new \<noteq> []"
      and "disk (main w) = Some (Object [(''sent_ids'', listing w sent_ids)])"
  using assms
  by (auto simp: main_def Let_def save_sent_posts_def send_email_def
      split: sum.splits prod.splits if_splits option.splits)

lemma main_nothing_new:
  assumes "load_sent_posts w = Inr loaded" and "try_fetch w loaded = (printed, [], sent_ids)"
  shows "main w = \<lparr>raised = None, trace = printed @ [Print No_new_matching_posts],
                   disk = sent_file w\<rparr>"
  using assms by (simp add: main_def)

section \<open>Facts about fetching and rendering\<close>

lemma html_escape_append: "html_escape (a @ b) = html_escape a @ html_escape b"
  by (simp add: html_escape_def)

lemma html_escape_prefix: "html_escape ''https://www.reddit.com'' = ''https://www.reddit.com''"
  by (simp add: html_escape_def escape_char_def)

lemma render_card: "concat (map (render_tag (post_dict p)) TEMPLATE_card) = post_card p"
  by (simp add: TEMPLATE_card_def post_dict_def post_card_def card_html_def)

lemma render_posts_html_cards:
  "render_posts_html TEMPLATE posts = TEMPLATE_head @ concat (map post_card posts) @ TEMPLATE_tail"
proof -
  have "(\<lambda>item. concat (map (render_tag item) TEMPLATE_card)) \<circ> post_dict = post_card"
    by (rule ext) (simp add: render_card)
  then show ?thesis
    by (simp add: render_posts_html_def pystache_render_def TEMPLATE_def)
qed

lemma make_post_permalink:
  assumes "make_post child = Inr p"
  shows "\<exists>raw. map_of child ''permalink'' = Some raw
           \<and> permalink p = ''https://www.reddit.com'' @ raw"
  using assms
  by (auto simp: make_post_def getitem_def split: sum.splits option.splits)

lemma append_posts_made:
  assumes "append_posts children acc = Inr posts"
  shows "\<exists>made. posts = acc @ made \<and> list_all2 (\<lambda>child p. make_post child = Inr p) children made"
  using assms
proof (induction children arbitrary: acc)
  case Nil
  then show ?case by simp
next
  case (Cons child children)
  from Cons.prems obtain p where p: "make_post child = Inr p"
    and rest: "append_posts children (acc @ [p]) = Inr posts"
    by (auto split: sum.splits)
  from Cons.IH [OF rest] obtain made where "posts = (acc @ [p]) @ made"
    and "list_all2 (\<lambda>child p. make_post child = Inr p) children made" by blast
  with p have "posts = acc @ (p # made)"
    and "list_all2 (\<lambda>child p. make_post child = Inr p) (child # children) (p # made)"
    by simp_all
  then show ?case by blast
qed

lemma fetch_posts_made:
  assumes "fetch_posts w subreddit = Inr posts"
  shows "\<exists>status children. http_get w (feed_url subreddit) = Response status (Children children)
           \<and> list_all2 (\<lambda>child p. make_post child = Inr p) children posts"
proof -
  from assms obtain status children
    where r: "http_get w (feed_url subreddit) = Response status (Children children)"
      and a: "append_posts children [] = Inr posts"
    by (auto simp: fetch_posts_def split: response.splits body.splits if_splits)
  from append_posts_made [OF a] r show ?thesis by auto
qed

lemma fetched_permalink:
  assumes "fetch_posts w subreddit = Inr posts" and "p \<in> set posts"
  shows "\<exists>raw. permalink p = ''https://www.reddit.com'' @ raw"
proof -
  from fetch_posts_made [OF assms(1)] obtain children
    where "list_all2 (\<lambda>child p. make_post child = Inr p) children posts" by blast
  with assms(2) obtain child where "make_post child = Inr p"
    by (auto simp: list_all2_conv_all_nth in_set_conv_nth)
  from make_post_permalink [OF this] show ?thesis by blast
qed

section \<open>The sample feed, evaluated\<close>

lemma sample_fetch:
  "http_get w = sample_get \<Longrightarrow> fetch_posts w SUBREDDIT = Inr [sample_A, sample_B, sample_C]"
  by (simp add: fetch_posts_def feed_url_def SUBREDDIT_def SORT_BY_def LIMIT_def sample_get_def
      sample_children_def make_post_def getitem_def sample_A_def sample_B_def sample_C_def)

lemma sample_A_matches: "filter_post sample_A"
proof -
  have "lower ''[Steam] Half-Life (Free)'' = ''[steam] half-life (free)''"
    by (simp add: lower_def lower_char_def is_upper_def)
  moreover have "lower ''store.example'' \<noteq> ''self.gamedeals''"
    by (simp add: lower_def)
  moreover have "any_in subs_allow ''[steam] half-life (free)''"
    by (simp add: any_in_def subs_allow_def)
  moreover have "\<not> any_in subs_exclude ''[steam] half-life (free)''"
    by (simp add: any_in_def subs_exclude_def)
  moreover have "any_in subs_qualify ''[steam] half-life (free)''"
    by (simp add: any_in_def subs_qualify_def)
  ultimately show ?thesis by (simp add: filter_post_def sample_A_def)
qed

lemma sample_B_matches: "filter_post sample_B"
proof -
  have "lower ''[GOG] Tom & Jerry (100% off)'' = ''[gog] tom & jerry (100% off)''"
    by (simp add: lower_def lower_char_def is_upper_def)
  moreover have "lower ''shop.example'' \<noteq> ''self.gamedeals''"
    by (simp add: lower_def)
  moreover have "any_in subs_allow ''[gog] tom & jerry (100% off)''"
    by (simp add: any_in_def subs_allow_def)
  moreover have "\<not> any_in subs_exclude ''[gog] tom & jerry (100% off)''"
    by (simp add: any_in_def subs_exclude_def)
  moreover have "any_in subs_qualify ''[gog] tom & jerry (100% off)''"
    by (simp add: any_in_def subs_qualify_def)
  ultimately show ?thesis by (simp add: filter_post_def sample_B_def)
qed

lemma sample_C_fails: "\<not> filter_post sample_C"
proof -
  have "lower ''[Epic] Portal (75% off)'' = ''[epic] portal (75% off)''"
    by (simp add: lower_def lower_char_def is_upper_def)
  moreover have "\<not> any_in subs_qualify ''[epic] portal (75% off)''"
    by (simp add: any_in_def subs_qualify_def)
  ultimately show ?thesis by (simp add: filter_post_def sample_C_def)
qed

lemma sample_ids: "post_id sample_A = ''A''" "post_id sample_B = ''B''" "post_id sample_C = ''C''"
  by (simp_all add: sample_A_def sample_B_def sample_C_def)

lemma sample_try_fetch_seen_A:
  "http_get w = sample_get \<Longrightarrow> try_fetch w {''A''} = ([], [sample_B], {''A'', ''B''})"
  by (auto simp: try_fetch_def sample_fetch sample_ids sample_A_matches sample_B_matches
      sample_C_fails)

lemma sample_try_fetch_unseen:
  "http_get w = sample_get \<Longrightarrow> try_fetch w {} = ([], [sample_A, sample_B], {''A'', ''B''})"
  by (auto simp: try_fetch_def sample_fetch sample_ids sample_A_matches sample_B_matches
      sample_C_fails)

lemma sample_world_simps:
  "sent_file (sample_world f wr r) = f" "writable (sample_world f wr r) = wr"
  "openable (sample_world f wr r) = False"
  "http_get (sample_world f wr r) = sample_get" "relay (sample_world f wr r) html = r"
  "listing (sample_world f wr r) = sorted_list_of_set"
  by (simp_all add: sample_world_def)

section \<open>The filter: order of the checks\<close>

text \<open>
  C2.  \<open>filter_post\<close> evaluates its conditions in the order self-post, allow-list,
  exclusion, qualifying-list, and stops at the first that fails: what it has evaluated
  when it ends is always an initial part of that order.  A self-post is rejected after
  the first condition alone, whatever its title is, string or not; a domain that is not
  a string raises there; otherwise the title is lower-cased, which raises when it is not
  a string, and a title without an allow-list term is rejected after two conditions, one
  with an exclusion term after three, one without a qualifying term after four, and a
  post that passes all four is accepted.  On a post whose values are strings the result
  is that of \<open>filter_post\<close>; in particular a post whose lower-cased title holds no
  allow-list term is rejected, and so is a post that passes the allow-list and exclusion
  checks and whose lower-cased title holds no qualifying term.
\<close>

theorem filter_post_check_order:
  "prefix (fst (filter_post_steps r)) [Self_post, Allow_list, Exclusion_list, Qualifying_list]
   \<and> (raw_domain r = Not_str \<longrightarrow> filter_post_steps r = ([Self_post], Inl AttributeError))
   \<and> (raw_domain r = Str d \<and> lower d = ''self.gamedeals''
        \<longrightarrow> filter_post_steps r = ([Self_post], Inr False))
   \<and> (raw_domain r = Str d \<and> lower d \<noteq> ''self.gamedeals'' \<and> raw_title r = Not_str
        \<longrightarrow> filter_post_steps r = ([Self_post], Inl AttributeError))
   \<and> (raw_domain r = Str d \<and> lower d \<noteq> ''self.gamedeals'' \<and> raw_title r = Str t
        \<and> \<not> any_in subs_allow (lower t)
        \<longrightarrow> filter_post_steps r = ([Self_post, Allow_list], Inr False))
   \<and> (raw_domain r = Str d \<and> lower d \<noteq> ''self.gamedeals'' \<and> raw_title r = Str t
        \<and> any_in subs_allow (lower t) \<and> any_in subs_exclude (lower t)
        \<longrightarrow> filter_post_steps r = ([Self_post, Allow_list, Exclusion_list], Inr False))
   \<and> (raw_domain r = Str d \<and> lower d \<noteq> ''self.gamedeals'' \<and> raw_title r = Str t
        \<and> any_in subs_allow (lower t) \<and> \<not> any_in subs_exclude (lower t)
        \<and> \<not> any_in subs_qualify (lower t)
        \<longrightarrow> filter_post_steps r
            = ([Self_post, Allow_list, Exclusion_list, Qualifying_list], Inr False))
   \<and> (raw_domain r = Str d \<and> lower d \<noteq> ''self.gamedeals'' \<and> raw_title r = Str t
        \<and> any_in subs_allow (lower t) \<and> \<not> any_in subs_exclude (lower t)
        \<and> any_in subs_qualify (lower t)
        \<longrightarrow> filter_post_steps r
            = ([Self_post, Allow_list, Exclusion_list, Qualifying_list], Inr True))
   \<and> snd (filter_post_steps (raw_of p)) = Inr (filter_post p)
   \<and> (\<not> any_in subs_allow (lower (title p)) \<longrightarrow> filter_post p = False)
   \<and> (any_in subs_allow (lower (title p)) \<and> \<not> any_in subs_exclude (lower (title p))
        \<and> \<not> any_in subs_qualify (lower (title p)) \<longrightarrow> filter_post p = False)"
proof (intro conjI impI)
  show "prefix (fst (filter_post_steps r))
          [Self_post, Allow_list, Exclusion_list, Qualifying_list]"
    by (simp add: filter_post_steps_def split: sum.splits)
next
  show "snd (filter_post_steps (raw_of p)) = Inr (filter_post p)"
    by (simp add: filter_post_steps_raw_of)
next
  assume "\<not> any_in subs_allow (lower (title p))"
  then show "filter_post p = False" by (simp add: filter_post_def)
next
  assume "any_in subs_allow (lower (title p)) \<and> \<not> any_in subs_exclude (lower (title p))
        \<and> \<not> any_in subs_qualify (lower (title p))"
  then show "filter_post p = False" by (simp add: filter_post_def)
qed (simp_all add: filter_post_steps_def value_lower_def)

theorem filter_post_check_order_witness:
  "filter_post_steps \<lparr>raw_id = ''c1'', raw_title = Not_str, raw_domain = Str ''self.GameDeals''\<rparr>
     = ([Self_post], Inr False)
   \<and> filter_post_steps \<lparr>raw_id = ''c2'', raw_title = Str ''Free weekend'', raw_domain = Not_str\<rparr>
     = ([Self_post], Inl AttributeError)
   \<and> filter_post_steps \<lparr>raw_id = ''c3'', raw_title = Not_str, raw_domain = Str ''store.example''\<rparr>
     = ([Self_post], Inl AttributeError)
   \<and> filter_post_steps \<lparr>raw_id = ''c4'', raw_title = Str ''[Humble] Buy Portal (100% off)'',
        raw_domain = Str ''store.example''\<rparr>
     = ([Self_post, Allow_list], Inr False)
   \<and> filter_post_steps \<lparr>raw_id = ''c5'', raw_title = Str ''[Steam] Portal FREE Weekend'',
        raw_domain = Str ''store.example''\<rparr>
     = ([Self_post, Allow_list, Exclusion_list], Inr False)
   \<and> filter_post_steps \<lparr>raw_id = ''c6'', raw_title = Str ''[GOG] Portal (75% off)'',
        raw_domain = Str ''store.example''\<rparr>
     = ([Self_post, Allow_list, Exclusion_list, Qualifying_list], Inr False)
   \<and> filter_post_steps \<lparr>raw_id = ''c7'', raw_title = Str ''[Steam] Portal (100% off)'',
        raw_domain = Str ''store.example''\<rparr>
     = ([Self_post, Allow_list, Exclusion_list, Qualifying_list], Inr True)
   \<and> filter_post \<lparr>post_id = ''c4'', title = ''[Humble] Buy Portal (100% off)'',
        url = ''https://store.example/portal'', domain = ''store.example'',
        permalink = ''https://www.reddit.com/r/GameDeals/comments/c4/''\<rparr> = False
   \<and> filter_post \<lparr>post_id = ''c6'', title = ''[GOG] Portal (75% off)'',
        url = ''https://store.example/portal'', domain = ''store.example'',
        permalink = ''https://www.reddit.com/r/GameDeals/comments/c6/''\<rparr> = False"
proof -
  let ?r1 = "\<lparr>raw_id = ''c1'', raw_title = Not_str, raw_domain = Str ''self.GameDeals''\<rparr>"
  let ?r2 = "\<lparr>raw_id = ''c2'', raw_title = Str ''Free weekend'', raw_domain = Not_str\<rparr>"
  let ?r3 = "\<lparr>raw_id = ''c3'', raw_title = Not_str, raw_domain = Str ''store.example''\<rparr>"
  let ?r4 = "\<lparr>raw_id = ''c4'', raw_title = Str ''[Humble] Buy Portal (100% off)'',
        raw_domain = Str ''store.example''\<rparr>"
  let ?r5 = "\<lparr>raw_id = ''c5'', raw_title = Str ''[Steam] Portal FREE Weekend'',
        raw_domain = Str ''store.example''\<rparr>"
  let ?r6 = "\<lparr>raw_id = ''c6'', raw_title = Str ''[GOG] Portal (75% off)'',
        raw_domain = Str ''store.example''\<rparr>"
  let ?r7 = "\<lparr>raw_id = ''c7'', raw_title = Str ''[Steam] Portal (100% off)'',
        raw_domain = Str ''store.example''\<rparr>"
  let ?p4 = "\<lparr>post_id = ''c4'', title = ''[Humble] Buy Portal (100% off)'',
        url = ''https://store.example/portal'', domain = ''store.example'',
        permalink = ''https://www.reddit.com/r/GameDeals/comments/c4/''\<rparr>"
  let ?p6 = "\<lparr>post_id = ''c6'', title = ''[GOG] Portal (75% off)'',
        url = ''https://store.example/portal'', domain = ''store.example'',
        permalink = ''https://www.reddit.com/r/GameDeals/comments/c6/''\<rparr>"
  have self: "lower ''self.GameDeals'' = ''self.gamedeals''"
    by (simp add: lower_def lower_char_def is_upper_def)
  have d: "lower ''store.example'' \<noteq> ''self.gamedeals''"
    by (simp add: lower_def)
  have t4: "lower ''[Humble] Buy Portal (100% off)'' = ''[humble] buy portal (100% off)''"
    by (simp add: lower_def lower_char_def is_upper_def)
  have t5: "lower ''[Steam] Portal FREE Weekend'' = ''[steam] portal free weekend''"
    by (simp add: lower_def lower_char_def is_upper_def)
  have t6: "lower ''[GOG] Portal (75% off)'' = ''[gog] portal (75% off)''"
    by (simp add: lower_def lower_char_def is_upper_def)
  have t7: "lower ''[Steam] Portal (100% off)'' = ''[steam] portal (100% off)''"
    by (simp add: lower_def lower_char_def is_upper_def)
  have a4: "\<not> any_in subs_allow ''[humble] buy portal (100% off)''"
    by (simp add: any_in_def subs_allow_def)
  have a5: "any_in subs_allow ''[steam] portal free weekend''"
    by (simp add: any_in_def subs_allow_def)
  have e5: "any_in subs_exclude ''[steam] portal free weekend''"
    by (simp add: any_in_def subs_exclude_def)
  have a6: "any_in subs_allow ''[gog] portal (75% off)''"
    by (simp add: any_in_def subs_allow_def)
  have e6: "\<not> any_in subs_exclude ''[gog] portal (75% off)''"
    by (simp add: any_in_def subs_exclude_def)
  have q6: "\<not> any_in subs_qualify ''[gog] portal (75% off)''"
    by (simp add: any_in_def subs_qualify_def)
  have a7: "any_in subs_allow ''[steam] portal (100% off)''"
    by (simp add: any_in_def subs_allow_def)
  have e7: "\<not> any_in subs_exclude ''[steam] portal (100% off)''"
    by (simp add: any_in_def subs_exclude_def)
  have q7: "any_in subs_qualify ''[steam] portal (100% off)''"
    by (simp add: any_in_def subs_qualify_def)
  from filter_post_check_order [of ?r1 "''self.GameDeals''"] self
  have r1: "filter_post_steps ?r1 = ([Self_post], Inr False)" by simp
  from filter_post_check_order [of ?r2]
  have r2: "filter_post_steps ?r2 = ([Self_post], Inl AttributeError)" by simp
  from filter_post_check_order [of ?r3 "''store.example''"] d
  have r3: "filter_post_steps ?r3 = ([Self_post], Inl AttributeError)" by simp
  from filter_post_check_order [of ?r4 "''store.example''" "''[Humble] Buy Portal (100% off)''"]
    d t4 a4
  have r4: "filter_post_steps ?r4 = ([Self_post, Allow_list], Inr False)" by simp
  from filter_post_check_order [of ?r5 "''store.example''" "''[Steam] Portal FREE Weekend''"]
    d t5 a5 e5
  have r5: "filter_post_steps ?r5 = ([Self_post, Allow_list, Exclusion_list], Inr False)"
    by simp
  from filter_post_check_order [of ?r6 "''store.example''" "''[GOG] Portal (75% off)''"]
    d t6 a6 e6 q6
  have r6: "filter_post_steps ?r6
            = ([Self_post, Allow_list, Exclusion_list, Qualifying_list], Inr False)"
    by simp
  from filter_post_check_order [of ?r7 "''store.example''" "''[Steam] Portal (100% off)''"]
    d t7 a7 e7 q7
  have r7: "filter_post_steps ?r7
            = ([Self_post, Allow_list, Exclusion_list, Qualifying_list], Inr True)"
    by simp
  from filter_post_check_order [of _ _ _ ?p4] t4 a4
  have p4: "filter_post ?p4 = False" by simp
  from filter_post_check_order [of _ _ _ ?p6] t6 a6 e6 q6
  have p6: "filter_post ?p6 = False" by simp
  from r1 r2 r3 r4 r5 r6 r7 p4 p6 show ?thesis by (intro conjI)
qed

section \<open>The filter: exclusion dominates inclusion\<close>

text \<open>
  C3.  A post whose title contains, case-insensitively, at least one allow-list term and
  at least one exclusion-list term is rejected by \<open>filter_post\<close>.
\<close>

theorem exclusion_dominates:
  assumes "\<exists>a \<in> set subs_allow. contains_ci (title p) a"
    and "\<exists>e \<in> set subs_exclude. contains_ci (title p) e"
  shows "filter_post p = False"
  using assms
  by (simp add: filter_post_def Let_def any_in_exclude_ci del: bex_simps)

theorem exclusion_dominates_witness:
  "(\<exists>a \<in> set subs_allow. contains_ci ''[Steam] Portal FREE Weekend'' a)
   \<and> (\<exists>e \<in> set subs_exclude. contains_ci ''[Steam] Portal FREE Weekend'' e)
   \<and> filter_post \<lparr>post_id = ''b1'', title = ''[Steam] Portal FREE Weekend'',
      url = ''https://store.example/portal'', domain = ''store.example'',
      permalink = ''https://www.reddit.com/r/GameDeals/comments/b1/''\<rparr> = False"
proof -
  let ?p = "\<lparr>post_id = ''b1'', title = ''[Steam] Portal FREE Weekend'',
      url = ''https://store.example/portal'', domain = ''store.example'',
      permalink = ''https://www.reddit.com/r/GameDeals/comments/b1/''\<rparr>"
  have t: "lower ''[Steam] Portal FREE Weekend'' = ''[steam] portal free weekend''"
    by (simp add: lower_def lower_char_def is_upper_def)
  have "contains_ci ''[Steam] Portal FREE Weekend'' ''steam''"
    unfolding contains_ci_def t by (simp add: lower_def lower_char_def is_upper_def)
  then have h1: "\<exists>a \<in> set subs_allow. contains_ci ''[Steam] Portal FREE Weekend'' a"
    by (simp add: subs_allow_def)
  have "contains_ci ''[Steam] Portal FREE Weekend'' ''free weekend''"
    unfolding contains_ci_def t by (simp add: lower_def lower_char_def is_upper_def)
  then have h2: "\<exists>e \<in> set subs_exclude. contains_ci ''[Steam] Portal FREE Weekend'' e"
    by (simp add: subs_exclude_def)
  have "filter_post ?p = False"
    by (rule exclusion_dominates) (simp_all add: h1 h2)
  with h1 h2 show ?thesis by blast
qed

section \<open>The filter: self-posts\<close>

text \<open>
  C4.  A post whose domain is, case-insensitively, the self-post domain of the monitored
  subreddit (its lower-cased domain is \<open>self.gamedeals\<close>) is rejected by
  \<open>filter_post\<close>, whatever its title is.
\<close>

theorem self_post_rejected:
  "lower (domain p) = ''self.gamedeals'' \<Longrightarrow> filter_post (p\<lparr>title := t\<rparr>) = False"
  by (simp add: filter_post_def)

theorem self_post_rejected_witness:
  "lower ''self.GameDeals'' = ''self.gamedeals''
   \<and> filter_post \<lparr>post_id = ''c1'', title = ''[Steam] Portal (100% off)'',
      url = ''https://www.reddit.com/r/GameDeals/comments/c1/'', domain = ''self.GameDeals'',
      permalink = ''https://www.reddit.com/r/GameDeals/comments/c1/''\<rparr> = False"
proof -
  have h: "lower ''self.GameDeals'' = ''self.gamedeals''"
    by (simp add: lower_def lower_char_def is_upper_def)
  from self_post_rejected [of "\<lparr>post_id = ''c1'', title = [],
      url = ''https://www.reddit.com/r/GameDeals/comments/c1/'', domain = ''self.GameDeals'',
      permalink = ''https://www.reddit.com/r/GameDeals/comments/c1/''\<rparr>"
      "''[Steam] Portal (100% off)''"] h
  show ?thesis by simp
qed

section \<open>The state file: saving and loading\<close>

text \<open>
  C8.  When the state file can be written and \<open>list(sent_ids)\<close> enumerates exactly the
  elements of the set \<open>S\<close>, in any order and with or without repetitions,
  \<open>save_sent_posts\<close> of \<open>S\<close> followed by \<open>load_sent_posts\<close> gives \<open>S\<close> back; a
  file holding any list of ids under \<open>sent_ids\<close> loads as the set of that list; and
  when the file does not exist \<open>load_sent_posts\<close> gives the empty set.
\<close>

theorem save_then_load:
  assumes "writable w" and "set (listing w S) = S"
  shows "(\<exists>written. save_sent_posts w S = Inr written
            \<and> load_sent_posts (w\<lparr>sent_file := Some written\<rparr>) = Inr S)
         \<and> load_sent_posts (w\<lparr>sent_file := Some (Object [(''sent_ids'', ids)])\<rparr>) = Inr (set ids)
         \<and> load_sent_posts (w\<lparr>sent_file := None\<rparr>) = Inr {}"
  using assms by (simp add: save_sent_posts_def load_sent_posts_def)

theorem save_then_load_witness:
  "save_sent_posts ((sample_world None True None)\<lparr>listing := sample_repeats\<rparr>) {''A'', ''B''}
     = Inr (Object [(''sent_ids'', [''B'', ''A'', ''B''])])
   \<and> load_sent_posts ((sample_world None True None)
         \<lparr>listing := sample_repeats,
          sent_file := Some (Object [(''sent_ids'', [''B'', ''A'', ''B''])])\<rparr>) = Inr {''A'', ''B''}
   \<and> load_sent_posts (sample_world None True None) = Inr {}"
proof -
  let ?w = "(sample_world None True None)\<lparr>listing := sample_repeats\<rparr>"
  have h1: "writable ?w" by (simp add: sample_world_simps)
  have h2: "set (listing ?w {''A'', ''B''}) = {''A'', ''B''}"
    by (auto simp: sample_repeats_def)
  have sv: "save_sent_posts ?w {''A'', ''B''} = Inr (Object [(''sent_ids'', [''B'', ''A'', ''B''])])"
    by (simp add: save_sent_posts_def sample_world_simps sample_repeats_def)
  note t = save_then_load [OF h1 h2]
  from t [THEN conjunct1] sv
  have c1: "load_sent_posts (?w\<lparr>sent_file := Some (Object [(''sent_ids'', [''B'', ''A'', ''B''])])\<rparr>)
            = Inr {''A'', ''B''}"
    by auto
  from t [THEN conjunct2, THEN conjunct2]
  have c2: "load_sent_posts (sample_world None True None) = Inr {}"
    by (simp add: load_sent_posts_def sample_world_simps)
  from sv c1 c2 show ?thesis by (intro conjI)
qed

section \<open>A run whose fetch is refused\<close>

text \<open>
  C5.  When the state file has been loaded and the feed answers with a status from 400
  to 599, \<open>raise_for_status\<close> raises \<open>HTTPError\<close>; \<open>main\<close> catches it and prints
  it, prints that there is nothing new, sends no mail, writes no file, and ends with no
  exception.
\<close>

theorem http_error_status:
  assumes "load_sent_posts w = Inr loaded"
    and "http_get w (feed_url SUBREDDIT) = Response status data"
    and "400 \<le> status" and "status < 600"
  shows "fetch_posts w SUBREDDIT = Inl (HTTPError status)
         \<and> main w = \<lparr>raised = None,
                trace = [Print (Error_fetching SUBREDDIT (HTTPError status)),
                         Print No_new_matching_posts],
                disk = sent_file w\<rparr>"
  using assms by (simp add: main_def try_fetch_def fetch_posts_def)

theorem http_error_status_witness:
  "main ((sample_world None True None)\<lparr>http_get := sample_refusal\<rparr>)
     = \<lparr>raised = None,
        trace = [Print (Error_fetching ''GameDeals'' (HTTPError 503)), Print No_new_matching_posts],
        disk = None\<rparr>"
proof -
  let ?w = "(sample_world None True None)\<lparr>http_get := sample_refusal\<rparr>"
  have h1: "load_sent_posts ?w = Inr {}"
    by (simp add: load_sent_posts_def sample_world_simps)
  have h2: "http_get ?w (feed_url SUBREDDIT) = Response 503 NotJson"
    by (simp add: sample_refusal_def)
  have h3: "(400::nat) \<le> 503" and h4: "(503::nat) < 600" by simp_all
  from http_error_status [OF h1 h2 h3 h4] show ?thesis
    by (simp add: SUBREDDIT_def sample_world_simps)
qed

section \<open>A run whose delivery fails\<close>

text \<open>
  C1.  When the new matching posts are not empty and \<open>send_email\<close> raises, the
  exception leaves \<open>main\<close>, \<open>save_sent_posts\<close> is not called and the state file is what
  it was before the run.  None of the undelivered posts has its id in the loaded set, so
  a next run that starts from this file and is given the same feed finds the same new
  matching posts, and the relay receives them if it accepts the document this time.
\<close>

theorem failed_delivery_keeps_state:
  assumes "load_sent_posts w = Inr loaded"
    and "try_fetch w loaded = (printed, new_matching_posts, sent_ids)"
    and "new_matching_posts \<noteq> []"
    and "send_email w (render_posts_html TEMPLATE new_matching_posts) = Inl e"
    and "sent_file w' = disk (main w)"
    and "http_get w' = http_get w"
  shows "main w = \<lparr>raised = Some e, trace = printed, disk = sent_file w\<rparr>
         \<and> Write c \<notin> set (trace (main w))
         \<and> (\<forall>p \<in> set new_matching_posts. post_id p \<notin> loaded)
         \<and> load_sent_posts w' = Inr loaded
         \<and> try_fetch w' loaded = (printed, new_matching_posts, sent_ids)
         \<and> (relay w' (render_posts_html TEMPLATE new_matching_posts) = None \<longrightarrow>
              Send (render_posts_html TEMPLATE new_matching_posts) \<in> set (trace (main w')))"
proof -
  have m: "main w = \<lparr>raised = Some e, trace = printed, disk = sent_file w\<rparr>"
    using assms(1-4) by (simp add: main_def)
  have nw: "Write c \<notin> set (trace (main w))"
    using m try_fetch_no_write [OF assms(2)] by simp
  have fresh: "\<forall>p \<in> set new_matching_posts. post_id p \<notin> loaded"
    using try_fetch_new_not_loaded [OF assms(2)] by blast
  from m assms(5) have "sent_file w' = sent_file w" by simp
  then have "load_sent_posts w' = load_sent_posts w" by (rule load_sent_posts_cong)
  with assms(1) have l': "load_sent_posts w' = Inr loaded" by simp
  have "try_fetch w' loaded = try_fetch w loaded" using assms(6) by (rule try_fetch_cong)
  with assms(2) have t': "try_fetch w' loaded = (printed, new_matching_posts, sent_ids)"
    by simp
  let ?html = "render_posts_html TEMPLATE new_matching_posts"
  have again: "Send ?html \<in> set (trace (main w'))" if acc: "relay w' ?html = None"
  proof (cases "save_sent_posts w' sent_ids")
    case (Inl x)
    obtain x1 left where x: "x = (x1, left)" by (cases x)
    from acc have ok: "send_email w' ?html = Inr (Send ?html)" by (simp add: send_email_def)
    have "main w' = \<lparr>raised = Some x1, trace = printed @ [Send ?html], disk = left\<rparr>"
      using l' t' assms(3) ok Inl x by (simp add: main_def)
    then show ?thesis by simp
  next
    case (Inr written)
    from acc have ok: "send_email w' ?html = Inr (Send ?html)" by (simp add: send_email_def)
    have "main w' = \<lparr>raised = None,
        trace = printed @ [Send ?html, Write written,
                          Print (Sent_email (length new_matching_posts))],
        disk = Some written\<rparr>"
      using l' t' assms(3) ok Inr by (simp add: main_def)
    then show ?thesis by simp
  qed
  show ?thesis
  proof (intro conjI impI)
    show "main w = \<lparr>raised = Some e, trace = printed, disk = sent_file w\<rparr>" by (rule m)
    show "Write c \<notin> set (trace (main w))" by (rule nw)
    show "\<forall>p \<in> set new_matching_posts. post_id p \<notin> loaded" by (rule fresh)
    show "load_sent_posts w' = Inr loaded" by (rule l')
    show "try_fetch w' loaded = (printed, new_matching_posts, sent_ids)" by (rule t')
    show "Send ?html \<in> set (trace (main w'))" if "relay w' ?html = None"
      using that by (rule again)
  qed
qed

theorem failed_delivery_keeps_state_witness:
  "main (sample_world (Some (Object [(''sent_ids'', [''A''])])) True (Some SMTPException))
     = \<lparr>raised = Some SMTPException, trace = [],
        disk = Some (Object [(''sent_ids'', [''A''])])\<rparr>
   \<and> try_fetch (sample_world (Some (Object [(''sent_ids'', [''A''])])) True None) {''A''}
       = ([], [sample_B], {''A'', ''B''})
   \<and> Send (render_posts_html TEMPLATE [sample_B])
       \<in> set (trace (main (sample_world (Some (Object [(''sent_ids'', [''A''])])) True None)))"
proof -
  let ?f = "Some (Object [(''sent_ids'', [''A''])])"
  let ?w = "sample_world ?f True (Some SMTPException)"
  let ?w' = "sample_world ?f True None"
  have h1: "load_sent_posts ?w = Inr {''A''}"
    by (simp add: load_sent_posts_def sample_world_simps)
  have h2: "try_fetch ?w {''A''} = ([], [sample_B], {''A'', ''B''})"
    by (rule sample_try_fetch_seen_A) (simp add: sample_world_simps)
  have h3: "[sample_B] \<noteq> []" by simp
  have h4: "send_email ?w (render_posts_html TEMPLATE [sample_B]) = Inl SMTPException"
    by (simp add: send_email_def sample_world_simps)
  have "main ?w = \<lparr>raised = Some SMTPException, trace = [], disk = ?f\<rparr>"
    using h1 h2 h4 by (simp add: main_def sample_world_simps)
  then have h5: "sent_file ?w' = disk (main ?w)"
    by (simp add: sample_world_simps)
  have h6: "http_get ?w' = http_get ?w"
    by (simp add: sample_world_simps)
  have ok: "relay ?w' (render_posts_html TEMPLATE [sample_B]) = None"
    by (simp add: sample_world_simps)
  note t = failed_delivery_keeps_state [OF h1 h2 h3 h4 h5 h6]
  have c1: "main ?w = \<lparr>raised = Some SMTPException, trace = [], disk = ?f\<rparr>"
    using t [THEN conjunct1] by (simp add: sample_world_simps)
  have c2: "try_fetch ?w' {''A''} = ([], [sample_B], {''A'', ''B''})"
    using t by blast
  have c3: "Send (render_posts_html TEMPLATE [sample_B]) \<in> set (trace (main ?w'))"
    using t ok by blast
  from c1 c2 c3 show ?thesis by (intro conjI)
qed

section \<open>A run whose state file cannot be written\<close>

text \<open>
  C9, as the code has it.  When the relay has accepted the document and the state file
  cannot be saved, whether \<open>open\<close> itself fails or the writing after it, the error is not
  caught: \<open>OSError\<close> leaves \<open>main\<close>, after the mail has been delivered.
\<close>

theorem unwritable_state_file_raises:
  assumes "load_sent_posts w = Inr loaded"
    and "try_fetch w loaded = (printed, new_matching_posts, sent_ids)"
    and "new_matching_posts \<noteq> []"
    and "relay w (render_posts_html TEMPLATE new_matching_posts) = None"
    and "\<not> writable w"
  shows "raised (main w) = Some OSError
         \<and> Send (render_posts_html TEMPLATE new_matching_posts) \<in> set (trace (main w))"
  using assms by (simp add: main_def save_sent_posts_def send_email_def)

theorem unwritable_state_file_raises_witness:
  "raised (main (sample_world (Some (Object [(''sent_ids'', [''A''])])) False None))
     = Some OSError
   \<and> Send (render_posts_html TEMPLATE [sample_B])
       \<in> set (trace (main (sample_world (Some (Object [(''sent_ids'', [''A''])])) False None)))
   \<and> raised (main ((sample_world (Some (Object [(''sent_ids'', [''A''])])) False None)
         \<lparr>openable := True\<rparr>)) = Some OSError"
proof -
  let ?w = "sample_world (Some (Object [(''sent_ids'', [''A''])])) False None"
  let ?v = "?w\<lparr>openable := True\<rparr>"
  have h1: "load_sent_posts ?w = Inr {''A''}"
    by (simp add: load_sent_posts_def sample_world_simps)
  have h2: "try_fetch ?w {''A''} = ([], [sample_B], {''A'', ''B''})"
    by (rule sample_try_fetch_seen_A) (simp add: sample_world_simps)
  have h3: "[sample_B] \<noteq> []" by simp
  have h4: "relay ?w (render_posts_html TEMPLATE [sample_B]) = None"
    by (simp add: sample_world_simps)
  have h5: "\<not> writable ?w" by (simp add: sample_world_simps)
  have g1: "load_sent_posts ?v = Inr {''A''}"
    by (simp add: load_sent_posts_def sample_world_simps)
  have g2: "try_fetch ?v {''A''} = ([], [sample_B], {''A'', ''B''})"
    by (rule sample_try_fetch_seen_A) (simp add: sample_world_simps)
  have g4: "relay ?v (render_posts_html TEMPLATE [sample_B]) = None"
    by (simp add: sample_world_simps)
  have g5: "\<not> writable ?v" by (simp add: sample_world_simps)
  note t = unwritable_state_file_raises [OF h1 h2 h3 h4 h5]
  note u = unwritable_state_file_raises [OF g1 g2 h3 g4 g5]
  from t [THEN conjunct1] t [THEN conjunct2] u [THEN conjunct1] show ?thesis
    by (intro conjI)
qed

text \<open>
  The sentence of C9 "a failed save is printed and no exception leaves the run" fails on
  the run below: the state file is absent and cannot be created, the posts \<open>A\<close> and
  \<open>B\<close> of the sample feed are new and match, the relay accepts the mail.  \<open>main\<close> ends
  with \<open>OSError\<close>, and of the events of a run all there is is the mail: \<open>main\<close> has
  printed nothing.
\<close>

theorem unwritable_state_file_counterexample:
  "raised (main (sample_world None False None)) = Some OSError
   \<and> trace (main (sample_world None False None))
       = [Send (render_posts_html TEMPLATE [sample_A, sample_B])]"
proof -
  let ?w = "sample_world None False None"
  have l: "load_sent_posts ?w = Inr {}"
    by (simp add: load_sent_posts_def sample_world_simps)
  have tf: "try_fetch ?w {} = ([], [sample_A, sample_B], {''A'', ''B''})"
    by (rule sample_try_fetch_unseen) (simp add: sample_world_simps)
  have "main ?w = \<lparr>raised = Some OSError,
                    trace = [Send (render_posts_html TEMPLATE [sample_A, sample_B])],
                    disk = None\<rparr>"
    by (simp add: main_def l tf send_email_def save_sent_posts_def sample_world_simps)
  then show ?thesis by simp
qed

section \<open>Three posts, one of them new\<close>

text \<open>
  C6.  The feed gives the posts \<open>a\<close>, \<open>b\<close>, \<open>c\<close> with three different ids, the
  loaded set holds the id of \<open>a\<close> only, \<open>filter_post\<close> accepts \<open>b\<close> and rejects
  \<open>c\<close>, the relay accepts the mail and the file can be written.  Then \<open>main\<close> sends
  the document rendered from \<open>b\<close> alone, which is the head of the template, one card
  with the escaped title, permalink and url of \<open>b\<close>, and the tail; after that it writes
  the ids of \<open>a\<close> and \<open>b\<close>, and the id of \<open>c\<close> is not among them.  For every list of
  posts and every set of seen ids, the loop collects the new matching posts in the order
  of the feed, never a post whose id is seen, no id twice, adds to the set exactly the
  ids of the posts it collects, and misses no unseen post that matches; when the ids of
  the feed are distinct it collects exactly the unseen posts that match.  A post whose id
  is seen is passed over before \<open>filter_post\<close> is evaluated on it: posts with seen ids
  leave the loop as it was even when their title or domain is no string, on which
  \<open>filter_post\<close> would raise, while such a post with an unseen id ends the loop with
  that exception; on posts whose values are strings this loop is the loop of \<open>main\<close>.
\<close>

theorem three_fetched_one_new:
  assumes "load_sent_posts w = Inr {post_id a}"
    and "fetch_posts w SUBREDDIT = Inr [a, b, c]"
    and "post_id b \<noteq> post_id a" and "post_id c \<noteq> post_id a" and "post_id c \<noteq> post_id b"
    and "filter_post b" and "\<not> filter_post c"
    and "relay w (render_posts_html TEMPLATE [b]) = None"
    and "writable w"
    and "set (listing w {post_id a, post_id b}) = {post_id a, post_id b}"
    and "main_loop posts ([], seen) = (new, seen')"
    and "\<forall>r \<in> set skipped. raw_id r \<in> seen"
  shows "main w = \<lparr>raised = None,
                   trace = [Send (render_posts_html TEMPLATE [b]),
                            Write (Object [(''sent_ids'', listing w {post_id a, post_id b})]),
                            Print (Sent_email 1)],
                   disk = Some (Object [(''sent_ids'', listing w {post_id a, post_id b})])\<rparr>
         \<and> render_posts_html TEMPLATE [b]
             = TEMPLATE_head
               @ card_html (html_escape (title b))
                   (''http://www.reddit.com'' @ html_escape (permalink b)) (html_escape (url b))
               @ TEMPLATE_tail
         \<and> load_sent_posts (w\<lparr>sent_file := disk (main w)\<rparr>) = Inr {post_id a, post_id b}
         \<and> post_id c \<notin> {post_id a, post_id b}
         \<and> subseq new posts
         \<and> (\<forall>p \<in> set new. post_id p \<notin> seen \<and> filter_post p)
         \<and> distinct (map post_id new)
         \<and> seen' = seen \<union> post_id ` set new
         \<and> (\<forall>p \<in> set posts. post_id p \<notin> seen \<and> filter_post p \<longrightarrow> post_id p \<in> post_id ` set new)
         \<and> (distinct (map post_id posts) \<longrightarrow>
               new = filter (\<lambda>p. post_id p \<notin> seen \<and> filter_post p) posts)
         \<and> main_loop_raw (skipped @ rest) (raw_new, seen) = main_loop_raw rest (raw_new, seen)
         \<and> (raw_id r \<notin> seen \<and> filter_post_raw r = Inl e \<longrightarrow>
               main_loop_raw (r # rest) (raw_new, seen) = (Some e, raw_new, seen))
         \<and> main_loop_raw (map raw_of posts) ([], seen) = (None, map raw_of new, seen')"
proof -
  let ?ids = "{post_id a, post_id b}"
  let ?written = "Object [(''sent_ids'', listing w ?ids)]"
  have loop: "main_loop [a, b, c] ([], {post_id a}) = ([b], ?ids)"
    using assms(3-7) by (auto simp: insert_commute)
  then have tf: "try_fetch w {post_id a} = ([], [b], ?ids)"
    using assms(2) by (simp add: try_fetch_def)
  have sv: "save_sent_posts w ?ids = Inr ?written"
    using assms(9) by (simp add: save_sent_posts_def)
  have m: "main w = \<lparr>raised = None,
                   trace = [Send (render_posts_html TEMPLATE [b]), Write ?written,
                            Print (Sent_email 1)],
                   disk = Some ?written\<rparr>"
    using assms(1,8) tf sv by (simp add: main_def send_email_def)
  have doc: "render_posts_html TEMPLATE [b]
             = TEMPLATE_head
               @ card_html (html_escape (title b))
                   (''http://www.reddit.com'' @ html_escape (permalink b)) (html_escape (url b))
               @ TEMPLATE_tail"
    using render_posts_html_cards [of "[b]"] by (simp add: post_card_def)
  have ld: "load_sent_posts (w\<lparr>sent_file := disk (main w)\<rparr>) = Inr ?ids"
    using m assms(10) by (simp add: load_sent_posts_def)
  have c: "post_id c \<notin> ?ids" using assms(4,5) by simp
  have n: "new = fst (main_loop posts ([], seen))" and s: "seen' = snd (main_loop posts ([], seen))"
    using assms(11) by simp_all
  have g1: "subseq new posts" unfolding n by (rule main_loop_subseq)
  have g2: "\<forall>p \<in> set new. post_id p \<notin> seen \<and> filter_post p"
    unfolding n using main_loop_sound by blast
  have g3: "distinct (map post_id new)" unfolding n by (rule main_loop_distinct)
  have g4: "seen' = seen \<union> post_id ` set new" unfolding n s by (rule main_loop_sent)
  have g5: "\<forall>p \<in> set posts. post_id p \<notin> seen \<and> filter_post p \<longrightarrow> post_id p \<in> post_id ` set new"
  proof (intro ballI impI)
    fix p assume "p \<in> set posts" and h: "post_id p \<notin> seen \<and> filter_post p"
    then have "post_id p \<in> seen'" unfolding s using main_loop_complete by blast
    with g4 h show "post_id p \<in> post_id ` set new" by blast
  qed
  have g6: "distinct (map post_id posts) \<longrightarrow>
               new = filter (\<lambda>p. post_id p \<notin> seen \<and> filter_post p) posts"
    unfolding n using main_loop_filter by blast
  have r1: "main_loop_raw (skipped @ rest) (raw_new, seen) = main_loop_raw rest (raw_new, seen)"
    by (rule main_loop_raw_all_seen) (simp add: assms(12))
  have r2: "raw_id r \<notin> seen \<and> filter_post_raw r = Inl e \<longrightarrow>
               main_loop_raw (r # rest) (raw_new, seen) = (Some e, raw_new, seen)"
    by (simp add: main_loop_raw_raises)
  have r3: "main_loop_raw (map raw_of posts) ([], seen) = (None, map raw_of new, seen')"
    using main_loop_raw_of [of posts "[]" seen] assms(11) by simp
  show ?thesis
    by (intro conjI) (fact m doc ld c g1 g2 g3 g4 g5 g6 r1 r2 r3)+
qed

theorem three_fetched_one_new_witness:
  "main (sample_world (Some (Object [(''sent_ids'', [''A''])])) True None)
     = \<lparr>raised = None,
        trace = [Send (render_posts_html TEMPLATE [sample_B]),
                 Write (Object [(''sent_ids'', sorted_list_of_set {''A'', ''B''})]),
                 Print (Sent_email 1)],
        disk = Some (Object [(''sent_ids'', sorted_list_of_set {''A'', ''B''})])\<rparr>
   \<and> render_posts_html TEMPLATE [sample_B]
       = TEMPLATE_head
         @ card_html ''[GOG] Tom &amp; Jerry (100% off)''
             ''http://www.reddit.comhttps://www.reddit.com/r/GameDeals/comments/B/tom_jerry/''
             ''https://shop.example/item?id=7&amp;ref=gd''
         @ TEMPLATE_tail
   \<and> main_loop [sample_A, sample_B, sample_C] ([], {''A''}) = ([sample_B], {''A'', ''B''})
   \<and> main_loop_raw [\<lparr>raw_id = ''A'', raw_title = Not_str, raw_domain = Not_str\<rparr>] ([], {''A''})
       = (None, [], {''A''})
   \<and> main_loop_raw [\<lparr>raw_id = ''D'', raw_title = Not_str, raw_domain = Not_str\<rparr>] ([], {''A''})
       = (Some AttributeError, [], {''A''})
   \<and> main_loop_raw [raw_of sample_A, raw_of sample_B, raw_of sample_C] ([], {''A''})
       = (None, [raw_of sample_B], {''A'', ''B''})"
proof -
  let ?w = "sample_world (Some (Object [(''sent_ids'', [''A''])])) True None"
  let ?seen = "\<lparr>raw_id = ''A'', raw_title = Not_str, raw_domain = Not_str\<rparr>"
  let ?unseen = "\<lparr>raw_id = ''D'', raw_title = Not_str, raw_domain = Not_str\<rparr>"
  have h1: "load_sent_posts ?w = Inr {post_id sample_A}"
    by (simp add: load_sent_posts_def sample_world_simps sample_ids)
  have h2: "fetch_posts ?w SUBREDDIT = Inr [sample_A, sample_B, sample_C]"
    by (rule sample_fetch) (simp add: sample_world_simps)
  have h3: "post_id sample_B \<noteq> post_id sample_A" and h4: "post_id sample_C \<noteq> post_id sample_A"
    and h5: "post_id sample_C \<noteq> post_id sample_B"
    by (simp_all add: sample_ids)
  have h8: "relay ?w (render_posts_html TEMPLATE [sample_B]) = None"
    by (simp add: sample_world_simps)
  have h9: "writable ?w" by (simp add: sample_world_simps)
  have h10: "set (listing ?w {post_id sample_A, post_id sample_B})
             = {post_id sample_A, post_id sample_B}"
    unfolding sample_world_simps by (rule set_sorted_list_of_set) simp
  have h11: "main_loop [sample_A, sample_B, sample_C] ([], {''A''}) = ([sample_B], {''A'', ''B''})"
    by (auto simp: sample_ids sample_A_matches sample_B_matches sample_C_fails)
  have e1: "html_escape (title sample_B) = ''[GOG] Tom &amp; Jerry (100% off)''"
    by (simp add: sample_B_def html_escape_def escape_char_def)
  have e2: "html_escape (permalink sample_B)
            = ''https://www.reddit.com/r/GameDeals/comments/B/tom_jerry/''"
    by (simp add: sample_B_def html_escape_def escape_char_def)
  have e3: "html_escape (url sample_B) = ''https://shop.example/item?id=7&amp;ref=gd''"
    by (simp add: sample_B_def html_escape_def escape_char_def)
  have h12: "\<forall>r \<in> set [?seen]. raw_id r \<in> {''A''}" by simp
  have u1: "raw_id ?unseen \<notin> {''A''}" by simp
  have u2: "filter_post_raw ?unseen = Inl AttributeError"
    by (simp add: filter_post_raw_def filter_post_steps_def value_lower_def)
  note t = three_fetched_one_new
    [OF h1 h2 h3 h4 h5 sample_B_matches sample_C_fails h8 h9 h10 h11 h12,
     of "[]" "[]" ?unseen AttributeError]
  have m: "main ?w = \<lparr>raised = None,
        trace = [Send (render_posts_html TEMPLATE [sample_B]),
                 Write (Object [(''sent_ids'', sorted_list_of_set {''A'', ''B''})]),
                 Print (Sent_email 1)],
        disk = Some (Object [(''sent_ids'', sorted_list_of_set {''A'', ''B''})])\<rparr>"
    using t [THEN conjunct1] unfolding sample_ids sample_world_simps .
  have d: "render_posts_html TEMPLATE [sample_B]
       = TEMPLATE_head
         @ card_html ''[GOG] Tom &amp; Jerry (100% off)''
             ''http://www.reddit.comhttps://www.reddit.com/r/GameDeals/comments/B/tom_jerry/''
             ''https://shop.example/item?id=7&amp;ref=gd''
         @ TEMPLATE_tail"
    using t [THEN conjunct2, THEN conjunct1] unfolding e1 e2 e3 by simp
  note raw = t [THEN conjunct2, THEN conjunct2, THEN conjunct2, THEN conjunct2,
    THEN conjunct2, THEN conjunct2, THEN conjunct2, THEN conjunct2, THEN conjunct2,
    THEN conjunct2]
  have r1: "main_loop_raw [?seen] ([], {''A''}) = (None, [], {''A''})"
    using raw [THEN conjunct1] by simp
  have r2: "main_loop_raw [?unseen] ([], {''A''}) = (Some AttributeError, [], {''A''})"
    using raw [THEN conjunct2, THEN conjunct1] u1 u2 by blast
  have r3: "main_loop_raw [raw_of sample_A, raw_of sample_B, raw_of sample_C] ([], {''A''})
       = (None, [raw_of sample_B], {''A'', ''B''})"
    using raw [THEN conjunct2, THEN conjunct2] by simp
  from m d h11 r1 r2 r3 show ?thesis by (intro conjI)
qed

section \<open>Two runs on the same feed\<close>

text \<open>
  C7, as the code has it.  A first run ends with no exception, and \<open>list(sent_ids)\<close>
  enumerates every finite set exactly.  A second run that starts from the state file the
  first one left and is given the same feed sends no mail and writes no file: every
  fetched post has its id in the persisted set or is rejected by \<open>filter_post\<close>, so the
  list of new matching posts is empty; the run prints that there is nothing new (after
  the fetch error, if the fetch fails again) and ends with no exception.
\<close>

theorem second_run_sends_nothing:
  assumes "raised (main w) = None"
    and "\<And>S. finite S \<Longrightarrow> set (listing w S) = S"
    and "sent_file w' = disk (main w)"
    and "http_get w' = http_get w"
  shows "(\<exists>persisted printed. load_sent_posts w' = Inr persisted
            \<and> try_fetch w' persisted = (printed, [], persisted)
            \<and> (\<forall>posts. fetch_posts w' SUBREDDIT = Inr posts \<longrightarrow>
                  (\<forall>p \<in> set posts. post_id p \<in> persisted \<or> \<not> filter_post p)))
         \<and> raised (main w') = None \<and> disk (main w') = sent_file w'
         \<and> Send h \<notin> set (trace (main w')) \<and> Write c \<notin> set (trace (main w'))
         \<and> (case fetch_posts w' SUBREDDIT of
               Inl e \<Rightarrow> trace (main w') =
                 [Print (Error_fetching SUBREDDIT e), Print No_new_matching_posts]
             | Inr posts \<Rightarrow> trace (main w') = [Print No_new_matching_posts])"
proof -
  have "\<exists>loaded' printed' sent_ids'. load_sent_posts w' = Inr loaded'
          \<and> try_fetch w' loaded' = (printed', [], sent_ids')"
    using assms(1)
  proof (cases rule: main_ok_cases)
    case (nothing loaded printed sent_ids)
    note n = this
    from n(3) assms(3) have "sent_file w' = sent_file w" by simp
    then have "load_sent_posts w' = load_sent_posts w" by (rule load_sent_posts_cong)
    with n(1) have "load_sent_posts w' = Inr loaded" by simp
    moreover have "try_fetch w' loaded = try_fetch w loaded"
      using assms(4) by (rule try_fetch_cong)
    with n(2) have "try_fetch w' loaded = (printed, [], sent_ids)" by simp
    ultimately show ?thesis by blast
  next
    case (sent loaded printed new sent_ids)
    note sent = this
    from sent(2,3) obtain posts where f: "fetch_posts w SUBREDDIT = Inr posts"
      and ml: "main_loop posts ([], loaded) = (new, sent_ids)"
      by (cases rule: try_fetch_cases) auto
    have "finite loaded" using sent(1) by (rule load_sent_posts_finite)
    moreover have s: "sent_ids = loaded \<union> post_id ` set new"
      using main_loop_sent [of posts loaded] ml by simp
    ultimately have "finite sent_ids" by simp
    then have "set (listing w sent_ids) = sent_ids" by (rule assms(2))
    then have l': "load_sent_posts w' = Inr sent_ids"
      using sent(4) assms(3) by (simp add: load_sent_posts_def)
    have "post_id q \<in> sent_ids" if "q \<in> set posts" and "filter_post q" for q
      using main_loop_complete [OF that, of loaded] ml by simp
    then have "main_loop posts ([], sent_ids) = ([], sent_ids)"
      by (rule main_loop_nothing_new)
    moreover have "fetch_posts w' SUBREDDIT = Inr posts"
      using f fetch_posts_cong [OF assms(4), of SUBREDDIT] by simp
    ultimately have "try_fetch w' sent_ids = ([], [], sent_ids)"
      by (simp add: try_fetch_def)
    with l' show ?thesis by blast
  qed
  then obtain loaded' printed' sent_ids' where l': "load_sent_posts w' = Inr loaded'"
    and t': "try_fetch w' loaded' = (printed', [], sent_ids')" by blast
  have same: "sent_ids' = loaded'"
    using t'
  proof (cases rule: try_fetch_cases)
    case (failed e)
    then show ?thesis by simp
  next
    case (fetched posts)
    with main_loop_sent [of posts loaded'] show ?thesis by simp
  qed
  have cover: "post_id p \<in> loaded' \<or> \<not> filter_post p"
    if f: "fetch_posts w' SUBREDDIT = Inr posts" and p: "p \<in> set posts" for posts p
  proof (cases "filter_post p")
    case True
    from t' f same have "main_loop posts ([], loaded') = ([], loaded')"
      by (simp add: try_fetch_def)
    with main_loop_complete [OF p True, of loaded'] show ?thesis by simp
  next
    case False
    then show ?thesis by simp
  qed
  have first: "\<exists>persisted printed. load_sent_posts w' = Inr persisted
            \<and> try_fetch w' persisted = (printed, [], persisted)
            \<and> (\<forall>posts. fetch_posts w' SUBREDDIT = Inr posts \<longrightarrow>
                  (\<forall>p \<in> set posts. post_id p \<in> persisted \<or> \<not> filter_post p))"
    using l' t' same cover by blast
  have m: "main w' = \<lparr>raised = None, trace = printed' @ [Print No_new_matching_posts],
                   disk = sent_file w'\<rparr>"
    using l' t' by (rule main_nothing_new)
  have quiet: "Send h \<notin> set (trace (main w'))" "Write c \<notin> set (trace (main w'))"
    using m try_fetch_no_write [OF t'] by simp_all
  have tr: "(case fetch_posts w' SUBREDDIT of
               Inl e \<Rightarrow> trace (main w') =
                 [Print (Error_fetching SUBREDDIT e), Print No_new_matching_posts]
             | Inr posts \<Rightarrow> trace (main w') = [Print No_new_matching_posts])"
    using t' m by (cases rule: try_fetch_cases) simp_all
  from m quiet have rest: "raised (main w') = None" "disk (main w') = sent_file w'"
    "Send h \<notin> set (trace (main w'))" "Write c \<notin> set (trace (main w'))"
    by simp_all
  show ?thesis
    by (intro conjI) (fact first rest tr)+
qed

theorem second_run_sends_nothing_witness:
  "main (sample_world (Some (Object [(''sent_ids'', [''A''])])) True None)
     = \<lparr>raised = None,
        trace = [Send (render_posts_html TEMPLATE [sample_B]),
                 Write (Object [(''sent_ids'', sorted_list_of_set {''A'', ''B''})]),
                 Print (Sent_email 1)],
        disk = Some (Object [(''sent_ids'', sorted_list_of_set {''A'', ''B''})])\<rparr>
   \<and> raised (main (sample_world (Some (Object [(''sent_ids'', sorted_list_of_set {''A'', ''B''})]))
                       True None)) = None
   \<and> trace (main (sample_world (Some (Object [(''sent_ids'', sorted_list_of_set {''A'', ''B''})]))
                       True None)) = [Print No_new_matching_posts]
   \<and> disk (main (sample_world (Some (Object [(''sent_ids'', sorted_list_of_set {''A'', ''B''})]))
                       True None))
       = Some (Object [(''sent_ids'', sorted_list_of_set {''A'', ''B''})])
   \<and> try_fetch (sample_world (Some (Object [(''sent_ids'', sorted_list_of_set {''A'', ''B''})]))
                       True None) {''A'', ''B''} = ([], [], {''A'', ''B''})"
proof -
  let ?f = "Some (Object [(''sent_ids'', [''A''])])"
  let ?f' = "Some (Object [(''sent_ids'', sorted_list_of_set {''A'', ''B''})])"
  let ?w = "sample_world ?f True None"
  let ?w' = "sample_world ?f' True None"
  have l: "load_sent_posts ?w = Inr {''A''}"
    by (simp add: load_sent_posts_def sample_world_simps)
  have tf: "try_fetch ?w {''A''} = ([], [sample_B], {''A'', ''B''})"
    by (rule sample_try_fetch_seen_A) (simp add: sample_world_simps)
  have m: "main ?w = \<lparr>raised = None,
        trace = [Send (render_posts_html TEMPLATE [sample_B]),
                 Write (Object [(''sent_ids'', sorted_list_of_set {''A'', ''B''})]),
                 Print (Sent_email 1)],
        disk = ?f'\<rparr>"
    using l tf
    by (simp add: main_def send_email_def save_sent_posts_def sample_world_simps
        del: sorted_list_of_set.sorted_key_list_of_set_insert_remove)
  then have h1: "raised (main ?w) = None" by simp
  have h2: "set (listing ?w S) = S" if "finite S" for S
    unfolding sample_world_simps using that by (rule set_sorted_list_of_set)
  have h3: "sent_file ?w' = disk (main ?w)"
    unfolding m by (simp add: sample_world_simps)
  have h4: "http_get ?w' = http_get ?w"
    by (simp add: sample_world_simps)
  have f: "fetch_posts ?w' SUBREDDIT = Inr [sample_A, sample_B, sample_C]"
    by (rule sample_fetch) (simp add: sample_world_simps)
  have l': "load_sent_posts ?w' = Inr {''A'', ''B''}"
    by (simp add: load_sent_posts_def sample_world_simps
        del: sorted_list_of_set.sorted_key_list_of_set_insert_remove)
  note t = second_run_sends_nothing [OF h1 h2 h3 h4]
  from t [THEN conjunct1] obtain persisted printed
    where "load_sent_posts ?w' = Inr persisted"
      and "try_fetch ?w' persisted = (printed, [], persisted)" by blast
  with l' have "try_fetch ?w' {''A'', ''B''} = (printed, [], {''A'', ''B''})" by simp
  moreover have "fst (try_fetch ?w' {''A'', ''B''}) = []"
    unfolding try_fetch_def f by simp
  ultimately have c0: "try_fetch ?w' {''A'', ''B''} = ([], [], {''A'', ''B''})" by simp
  have c1: "raised (main ?w') = None" using t [THEN conjunct2, THEN conjunct1] .
  have c2: "disk (main ?w') = ?f'" using t [THEN conjunct2, THEN conjunct2, THEN conjunct1]
    unfolding sample_world_simps .
  have c3: "trace (main ?w') = [Print No_new_matching_posts]"
    using t [THEN conjunct2, THEN conjunct2, THEN conjunct2, THEN conjunct2, THEN conjunct2]
    unfolding f by simp
  from m c1 c3 c2 c0 show ?thesis by (intro conjI)
qed

text \<open>
  The sentence of C7 "every fetched id is already in the persisted set" fails on the
  second run after the run above: the first run has left the ids \<open>A\<close> and \<open>B\<close>, the
  second one fetches \<open>A\<close>, \<open>B\<close> and \<open>C\<close> again, and the id of \<open>C\<close>, which
  \<open>filter_post\<close> rejects, is in no state file.
\<close>

theorem second_run_unseen_id_counterexample:
  "disk (main (sample_world (Some (Object [(''sent_ids'', [''A''])])) True None))
     = Some (Object [(''sent_ids'', sorted_list_of_set {''A'', ''B''})])
   \<and> load_sent_posts
         (sample_world (Some (Object [(''sent_ids'', sorted_list_of_set {''A'', ''B''})])) True None)
       = Inr {''A'', ''B''}
   \<and> fetch_posts
         (sample_world (Some (Object [(''sent_ids'', sorted_list_of_set {''A'', ''B''})])) True None)
         SUBREDDIT
       = Inr [sample_A, sample_B, sample_C]
   \<and> post_id sample_C = ''C''
   \<and> ''C'' \<notin> {''A'', ''B''}"
proof -
  let ?f = "Some (Object [(''sent_ids'', [''A''])])"
  let ?f' = "Some (Object [(''sent_ids'', sorted_list_of_set {''A'', ''B''})])"
  let ?w = "sample_world ?f True None"
  let ?w' = "sample_world ?f' True None"
  have l: "load_sent_posts ?w = Inr {''A''}"
    by (simp add: load_sent_posts_def sample_world_simps)
  have tf: "try_fetch ?w {''A''} = ([], [sample_B], {''A'', ''B''})"
    by (rule sample_try_fetch_seen_A) (simp add: sample_world_simps)
  have "main ?w = \<lparr>raised = None,
        trace = [Send (render_posts_html TEMPLATE [sample_B]),
                 Write (Object [(''sent_ids'', sorted_list_of_set {''A'', ''B''})]),
                 Print (Sent_email 1)],
        disk = ?f'\<rparr>"
    using l tf
    by (simp add: main_def send_email_def save_sent_posts_def sample_world_simps
        del: sorted_list_of_set.sorted_key_list_of_set_insert_remove)
  then have c1: "disk (main ?w) = ?f'" by simp
  have c2: "load_sent_posts ?w' = Inr {''A'', ''B''}"
    by (simp add: load_sent_posts_def sample_world_simps
        del: sorted_list_of_set.sorted_key_list_of_set_insert_remove)
  have c3: "fetch_posts ?w' SUBREDDIT = Inr [sample_A, sample_B, sample_C]"
    by (rule sample_fetch) (simp add: sample_world_simps)
  have c4: "post_id sample_C = ''C''" by (simp add: sample_ids)
  have c5: "''C'' \<notin> {''A'', ''B''}" by simp
  from c1 c2 c3 c4 c5 show ?thesis by (intro conjI)
qed

section \<open>The href of the Reddit link\<close>

text \<open>
  C10.  Every post that \<open>fetch_posts\<close> returns has as permalink the text
  \<open>https://www.reddit.com\<close> followed by the permalink of the feed.  The document
  rendered from a non-empty list of fetched posts is the head of the template, one card
  for each post in order, and the tail; the \<open>href\<close> of the "Reddit link" of a card is
  \<open>http://www.reddit.com\<close> followed by the escaped permalink of the post, hence it
  starts with \<open>http://www.reddit.comhttps://www.reddit.com\<close>.
\<close>

theorem reddit_link_is_prefixed_twice:
  assumes "http_get w (feed_url subreddit) = Response status (Children children)"
    and "fetch_posts w subreddit = Inr posts"
    and "set matched \<subseteq> set posts"
    and "matched \<noteq> []"
  shows "list_all2 (\<lambda>child p. \<exists>raw. map_of child ''permalink'' = Some raw
             \<and> permalink p = ''https://www.reddit.com'' @ raw) children posts
         \<and> render_posts_html TEMPLATE matched
             = TEMPLATE_head
               @ concat (map (\<lambda>p. card_html (html_escape (title p))
                               (''http://www.reddit.com'' @ html_escape (permalink p))
                               (html_escape (url p))) matched)
               @ TEMPLATE_tail
         \<and> (\<forall>p \<in> set matched. \<exists>raw. permalink p = ''https://www.reddit.com'' @ raw
               \<and> ''http://www.reddit.com'' @ html_escape (permalink p)
                   = ''http://www.reddit.comhttps://www.reddit.com'' @ html_escape raw)"
proof (intro conjI ballI)
  from fetch_posts_made [OF assms(2)] assms(1)
  have "list_all2 (\<lambda>child p. make_post child = Inr p) children posts" by simp
  then show "list_all2 (\<lambda>child p. \<exists>raw. map_of child ''permalink'' = Some raw
             \<and> permalink p = ''https://www.reddit.com'' @ raw) children posts"
    by (rule list_all2_mono) (rule make_post_permalink)
next
  show "render_posts_html TEMPLATE matched
             = TEMPLATE_head
               @ concat (map (\<lambda>p. card_html (html_escape (title p))
                               (''http://www.reddit.com'' @ html_escape (permalink p))
                               (html_escape (url p))) matched)
               @ TEMPLATE_tail"
    using render_posts_html_cards [of matched] by (simp add: post_card_def [abs_def])
next
  fix p assume "p \<in> set matched"
  with assms(3) have "p \<in> set posts" by blast
  from fetched_permalink [OF assms(2) this] obtain raw
    where raw: "permalink p = ''https://www.reddit.com'' @ raw" by blast
  have "html_escape (permalink p) = ''https://www.reddit.com'' @ html_escape raw"
    unfolding raw html_escape_append html_escape_prefix ..
  then have "''http://www.reddit.com'' @ html_escape (permalink p)
                   = ''http://www.reddit.comhttps://www.reddit.com'' @ html_escape raw"
    by simp
  with raw show "\<exists>raw. permalink p = ''https://www.reddit.com'' @ raw
               \<and> ''http://www.reddit.com'' @ html_escape (permalink p)
                   = ''http://www.reddit.comhttps://www.reddit.com'' @ html_escape raw"
    by blast
qed

theorem reddit_link_is_prefixed_twice_witness:
  "fetch_posts (sample_world None True None) SUBREDDIT = Inr [sample_A, sample_B, sample_C]
   \<and> render_posts_html TEMPLATE [sample_B]
       = TEMPLATE_head
         @ card_html ''[GOG] Tom &amp; Jerry (100% off)''
             ''http://www.reddit.comhttps://www.reddit.com/r/GameDeals/comments/B/tom_jerry/''
             ''https://shop.example/item?id=7&amp;ref=gd''
         @ TEMPLATE_tail"
proof -
  let ?w = "sample_world None True None"
  have h1: "http_get ?w (feed_url SUBREDDIT) = Response 200 (Children sample_children)"
    by (simp add: sample_world_simps sample_get_def feed_url_def SUBREDDIT_def SORT_BY_def
        LIMIT_def)
  have h2: "fetch_posts ?w SUBREDDIT = Inr [sample_A, sample_B, sample_C]"
    by (rule sample_fetch) (simp add: sample_world_simps)
  have h3: "set [sample_B] \<subseteq> set [sample_A, sample_B, sample_C]" by simp
  have h4: "[sample_B] \<noteq> []" by simp
  have e1: "html_escape (title sample_B) = ''[GOG] Tom &amp; Jerry (100% off)''"
    by (simp add: sample_B_def html_escape_def escape_char_def)
  have e2: "html_escape (permalink sample_B)
            = ''https://www.reddit.com/r/GameDeals/comments/B/tom_jerry/''"
    by (simp add: sample_B_def html_escape_def escape_char_def)
  have e3: "html_escape (url sample_B) = ''https://shop.example/item?id=7&amp;ref=gd''"
    by (simp add: sample_B_def html_escape_def escape_char_def)
  note t = reddit_link_is_prefixed_twice [OF h1 h2 h3 h4]
  have d: "render_posts_html TEMPLATE [sample_B]
       = TEMPLATE_head
         @ card_html ''[GOG] Tom &amp; Jerry (100% off)''
             ''http://www.reddit.comhttps://www.reddit.com/r/GameDeals/comments/B/tom_jerry/''
             ''https://shop.example/item?id=7&amp;ref=gd''
         @ TEMPLATE_tail"
    using t [THEN conjunct2, THEN conjunct1] by (simp add: e1 e2 e3)
  from h2 d show ?thesis by (intro conjI)
qed

end
